theory Spec2Isabelle
  imports Main "HOL-Library.Word" "HOL-Library.Multiset"
begin

section \<open>Flystorage: the stream mime-type resolver and the AWS S3 adapter\<close>

text \<open>
  A shallow embedding of \<^verbatim>\<open>packages/stream-mime-type/src/stream-mime-type.ts\<close> and of
  the class \<^verbatim>\<open>AwsS3FileStorage\<close>. Promises are modelled by their settled value:
  a rejection is \<open>Inl\<close> of an error, a promise that never settles is \<open>None\<close>.
  Calls into the S3 SDK, into \<^verbatim>\<open>mime-types\<close>, \<^verbatim>\<open>file-type\<close> and \<^verbatim>\<open>node:path\<close>
  are parameters of the model.
\<close>

subsection \<open>Errors\<close>

text \<open>
  What \<^verbatim>\<open>client.send\<close> can throw: an \<^verbatim>\<open>S3ServiceException\<close> with its
  \<^verbatim>\<open>$metadata.httpStatusCode\<close>, or anything else (a transport failure, say).
\<close>

datatype S3Error = S3ServiceException "nat option" | OtherException string

text \<open>
  What a promise of the two modules can reject with: an error of the client, rethrown as
  it is; the error made by \<^verbatim>\<open>ChecksumIsNotAvailable.checksumNotSupported(algo)\<close>; an
  \<^verbatim>\<open>Error\<close> with its message, made by \<^verbatim>\<open>new Error(message)\<close> or thrown by a library; a
  \<^verbatim>\<open>TypeError\<close> of the runtime.
\<close>

datatype error =
    Thrown S3Error
  | ChecksumIsNotAvailable string
  | Error string
  | TypeError

subsection \<open>Byte arrays and streams\<close>

type_synonym Uint8Array = "8 word list"

text \<open>
  A \<^verbatim>\<open>Readable\<close> is the sequence of chunks it emits as \<^verbatim>\<open>'data'\<close> events, followed
  by how it finishes: with \<^verbatim>\<open>'end'\<close>, with \<^verbatim>\<open>'error'\<close>, or not at all. How a consumer
  of a \<^verbatim>\<open>PassThrough\<close> sees the bytes cut into chunks depends on how it reads; what the
  model says of such a stream is its \<open>content\<close>, the bytes in their order.
\<close>

datatype finish = End | Failed | Pending

record Readable =
  chunks :: "Uint8Array list"
  finish :: finish

definition content :: "Readable \<Rightarrow> Uint8Array" where
  "content r = concat (chunks r)"

text \<open>\<^verbatim>\<open>output.set(i, position)\<close>: the source array overwrites the target from \<open>position\<close> on.\<close>

definition set_at :: "Uint8Array \<Rightarrow> Uint8Array \<Rightarrow> nat \<Rightarrow> Uint8Array" where
  "set_at output i position = take position output @ i @ drop (position + length i) output"

definition concatUint8Arrays :: "Uint8Array list \<Rightarrow> Uint8Array" where
  "concatUint8Arrays input =
     (let len = fold (\<lambda>a l. l + length a) input 0;
          output = replicate len (0 :: 8 word)
      in fst (fold (\<lambda>i (out, position). (set_at out i position, position + length i))
                   input (output, 0)))"

text \<open>
  The closure of \<^verbatim>\<open>streamHead\<close>: its three local variables, the value the promise was
  resolved with (the head; the stream of the pair is always \<^verbatim>\<open>outputStream\<close>), and
  the chunks that the pipe \<^verbatim>\<open>tunnel.pipe(outputStream)\<close> has written to \<^verbatim>\<open>outputStream\<close>.
\<close>

record head_state =
  readBytes :: nat
  buffers :: "Uint8Array list"
  resolved :: bool
  settled :: "Uint8Array option"
  piped :: "Uint8Array list"

definition head_init :: head_state where
  "head_init = \<lparr>readBytes = 0, buffers = [], resolved = False, settled = None, piped = []\<rparr>"

text \<open>
  A \<^verbatim>\<open>'data'\<close> event of the tunnel: the listener of line 27 runs, and the pipe forwards
  the same chunk to \<^verbatim>\<open>outputStream\<close>. A second \<^verbatim>\<open>resolve\<close> of a promise has no effect;
  the guard on \<open>resolved\<close> makes sure there is none.
\<close>

definition on_data :: "nat \<Rightarrow> Uint8Array \<Rightarrow> head_state \<Rightarrow> head_state" where
  "on_data sz chunk st =
     (let st = st\<lparr>piped := piped st @ [chunk]\<rparr> in
      if \<not> resolved st then
        (let st = st\<lparr>readBytes := readBytes st + length chunk,
                     buffers := buffers st @ [chunk]\<rparr> in
         if readBytes st \<ge> sz then
           st\<lparr>resolved := True, settled := Some (concatUint8Arrays (buffers st)), buffers := []\<rparr>
         else st)
      else st)"

definition on_end :: "head_state \<Rightarrow> head_state" where
  "on_end st =
     (if \<not> resolved st then st\<lparr>settled := Some (concatUint8Arrays (buffers st))\<rparr> else st)"

text \<open>
  \<^verbatim>\<open>stream.pipe(tunnel).pipe(outputStream)\<close>: every chunk of the source is written to the
  tunnel. A \<^verbatim>\<open>PassThrough\<close> emits no \<^verbatim>\<open>'data'\<close> event for a chunk without bytes, so the
  \<^verbatim>\<open>'data'\<close> events of the tunnel are the chunks of the source that are not empty.
\<close>

definition tunnel_data :: "Readable \<Rightarrow> Uint8Array list" where
  "tunnel_data stream = filter (\<lambda>chunk. chunk \<noteq> []) (chunks stream)"

text \<open>
  The end of the source ends the tunnel and then \<^verbatim>\<open>outputStream\<close>. A pipe does not forward
  an error of the source: the tunnel then neither ends nor fails, so a promise that is
  not resolved by then stays pending (\<open>None\<close>), and a stream handed out earlier never
  ends.
\<close>

definition streamHead :: "Readable \<Rightarrow> nat \<Rightarrow> (Uint8Array \<times> Readable) option" where
  "streamHead stream sz =
     (let st = fold (on_data sz) (tunnel_data stream) head_init in
      case finish stream of
        End \<Rightarrow>
          (let st = on_end st in
           map_option (\<lambda>head. (head, \<lparr>chunks = piped st, finish = End\<rparr>)) (settled st))
      | _ \<Rightarrow>
          map_option (\<lambda>head. (head, \<lparr>chunks = piped st, finish = Pending\<rparr>)) (settled st))"

text \<open>
  The libraries \<^verbatim>\<open>resolveMimeType\<close> calls. \<open>fileTypeFromBuffer\<close> stands for the two awaits
  of lines 55 and 56, the import of \<^verbatim>\<open>file-type\<close> and the detection on the head: the error
  that one of them rejects with, or the \<^verbatim>\<open>mime\<close> field of the result (\<open>None\<close> for
  \<^verbatim>\<open>undefined\<close>). \<open>parse_ext\<close> is \<^verbatim>\<open>parse(filename).ext\<close> of \<^verbatim>\<open>node:path\<close>, and
  \<open>mimeTimeForExt\<close> is \<^verbatim>\<open>lookup\<close> of \<^verbatim>\<open>mime-types\<close> (\<open>None\<close> for \<^verbatim>\<open>false\<close>).
\<close>

record libs =
  fileTypeFromBuffer :: "Uint8Array \<Rightarrow> error + string option"
  parse_ext :: "string \<Rightarrow> string"
  mimeTimeForExt :: "string \<Rightarrow> string option"

text \<open>\<^verbatim>\<open>a || b\<close> on a string, \<^verbatim>\<open>false\<close> or \<^verbatim>\<open>undefined\<close>: the empty string is falsy too.\<close>

definition js_or :: "string option \<Rightarrow> string option \<Rightarrow> string option" where
  "js_or a b = (case a of None \<Rightarrow> b | Some s \<Rightarrow> if s = [] then b else Some s)"

text \<open>
  \<^verbatim>\<open>resolveMimeType\<close> has no \<^verbatim>\<open>try\<close>: an error of the detection rejects its promise, and
  the stream that \<^verbatim>\<open>streamHead\<close> returned is not handed out.
\<close>

definition resolveMimeType ::
  "libs \<Rightarrow> string \<Rightarrow> Readable \<Rightarrow> string option
     \<Rightarrow> (error + string option \<times> Readable) option" where
  "resolveMimeType L filename stream fallback =
     (case streamHead stream 4100 of
        None \<Rightarrow> None
      | Some (head, readable) \<Rightarrow>
          (case fileTypeFromBuffer L head of
             Inl e \<Rightarrow> Some (Inl e)
           | Inr (Some mime) \<Rightarrow> Some (Inr (Some mime, readable))
           | Inr None \<Rightarrow>
               (let ext = parse_ext L filename
                in Some (Inr (js_or (mimeTimeForExt L ext) fallback, readable)))))"

subsection \<open>The S3 client\<close>

text \<open>A \<^verbatim>\<open>Date\<close> is its time value: milliseconds since the epoch.\<close>

type_synonym Date = int

definition getMilliseconds :: "Date \<Rightarrow> int" where
  "getMilliseconds d = d mod 1000"

definition getTime :: "Date \<Rightarrow> int" where
  "getTime d = d"

text \<open>The shapes of the SDK that the adapter reads; an optional field is an \<open>option\<close>.\<close>

record S3Object =
  Key :: "string option"
  Size :: "nat option"
  LastModified :: "Date option"

record CommonPrefix =
  Prefix :: "string option"

record ListObjectsV2Output =
  NextContinuationToken :: "string option"
  IsTruncated :: "bool option"
  CommonPrefixes :: "CommonPrefix list option"
  Contents :: "S3Object list option"

record HeadObjectOutput =
  ContentLength :: "nat option"
  HeadLastModified :: "Date option"
  ContentType :: "string option"
  ETag :: "string option"
  ChecksumSHA1 :: "string option"
  ChecksumSHA256 :: "string option"
  ChecksumCRC32 :: "string option"
  ChecksumCRC32C :: "string option"

record Grantee =
  URI :: "string option"

record Grant =
  Grantee :: "Grantee option"
  Permission :: "string option"

record GetObjectAclOutput =
  Grants :: "Grant list option"

datatype Body = ReadableBody Readable | OtherBody

record GetObjectOutput =
  Body :: "Body option"

text \<open>
  The commands, with their fields in this order:
  \<^verbatim>\<open>ListObjectsV2Command\<close>: Bucket, Prefix, Delimiter, ContinuationToken, MaxKeys;
  \<^verbatim>\<open>HeadObjectCommand\<close>: Bucket, Key, ChecksumMode;
  \<^verbatim>\<open>GetObjectCommand\<close>, \<^verbatim>\<open>GetObjectAclCommand\<close>: Bucket, Key;
  \<^verbatim>\<open>DeleteObjectsCommand\<close>: Bucket, the \<^verbatim>\<open>Key\<close> of each element of \<^verbatim>\<open>Delete.Objects\<close>.
\<close>

datatype ListObjectsV2Command =
  ListObjectsV2Command string string "string option" "string option" "nat option"

datatype HeadObjectCommand = HeadObjectCommand string string "string option"

datatype GetObjectCommand = GetObjectCommand string string

datatype GetObjectAclCommand = GetObjectAclCommand string string

datatype DeleteObjectsCommand = DeleteObjectsCommand string "string option list"

record S3Client =
  send_ListObjectsV2 :: "ListObjectsV2Command \<Rightarrow> S3Error + ListObjectsV2Output"
  send_HeadObject :: "HeadObjectCommand \<Rightarrow> S3Error + HeadObjectOutput"
  send_GetObject :: "GetObjectCommand \<Rightarrow> S3Error + GetObjectOutput"
  send_GetObjectAcl :: "GetObjectAclCommand \<Rightarrow> S3Error + GetObjectAclOutput"
  send_DeleteObjects :: "DeleteObjectsCommand \<Rightarrow> S3Error + unit"

subsection \<open>The adapter's data\<close>

text \<open>
  \<^verbatim>\<open>PathPrefixer\<close> is a class of \<^verbatim>\<open>@flystorage/file-storage\<close>; the adapter only calls
  its four methods, which are parameters here.
\<close>

record PathPrefixer =
  prefixFilePath :: "string \<Rightarrow> string"
  prefixDirectoryPath :: "string \<Rightarrow> string"
  stripFilePath :: "string \<Rightarrow> string"
  stripDirectoryPath :: "string \<Rightarrow> string"


text \<open>
  The type \<^verbatim>\<open>ChecksumAlgo\<close>: the union of the five literals. Of the options, \<open>bucketName\<close>
  is the field \<^verbatim>\<open>bucket\<close>.
\<close>

datatype ChecksumAlgo = SHA1 | SHA256 | CRC32 | CRC32C | ETAG



record AwsS3FileStorageOptions =
  bucketName :: string
  defaultChecksumAlgo :: "ChecksumAlgo option"

record AwsS3FileStorage =
  client :: S3Client
  options :: AwsS3FileStorageOptions
  prefixer :: PathPrefixer

text \<open>
  \<^verbatim>\<open>StatEntry\<close>, as the object literals of \<^verbatim>\<open>stat\<close> and \<^verbatim>\<open>list\<close> build it. The fields
  \<^verbatim>\<open>path\<close>, \<^verbatim>\<open>size\<close> and \<^verbatim>\<open>mimeType\<close> are \<open>entryPath\<close>, \<open>entrySize\<close> and \<open>entryMimeType\<close>;
  a field that a literal leaves out is \<open>None\<close>.
\<close>

record StatEntry =
  type :: string
  isFile :: bool
  isDirectory :: bool
  entryPath :: string
  entrySize :: "nat option"
  lastModifiedMs :: "int option"
  entryMimeType :: "string option"

text \<open>
  Modelled from the spec: the enumeration \<^verbatim>\<open>Visibility\<close> of \<^verbatim>\<open>@flystorage/file-storage\<close>
  is not among the sources. The spec gives it two values, PUBLIC and PRIVATE; the
  adapter compares strings with them, so they are two distinct strings.
\<close>

definition Visibility_PUBLIC :: string where
  "Visibility_PUBLIC = ''public''"

definition Visibility_PRIVATE :: string where
  "Visibility_PRIVATE = ''private''"

record MimeTypeOptions =
  disallowFallback :: "bool option"
  fallbackMethod :: "string option"


subsection \<open>Listing\<close>

text \<open>What \<^verbatim>\<open>listObjects\<close> yields: \<^verbatim>\<open>{type: 'prefix', item}\<close> or \<^verbatim>\<open>{type: 'object', item}\<close>.\<close>

datatype listed = prefix_item CommonPrefix | object_item S3Object

record list_options =
  deep :: bool
  includePrefixes :: bool
  includeSelf :: bool
  maxKeys :: "nat option"

text \<open>The condition of the \<^verbatim>\<open>while\<close> loop of \<^verbatim>\<open>listObjects\<close>.\<close>

definition keep_listing :: "list_options \<Rightarrow> nat \<Rightarrow> bool \<Rightarrow> bool" where
  "keep_listing opts collectedKeys shouldContinue =
     (shouldContinue \<and> (case maxKeys opts of None \<Rightarrow> True | Some m \<Rightarrow> collectedKeys < m))"

text \<open>The items of one response that the two \<^verbatim>\<open>for\<close> loops yield, in their order.\<close>

definition page_items :: "list_options \<Rightarrow> string \<Rightarrow> ListObjectsV2Output \<Rightarrow> listed list" where
  "page_items opts prefix response =
     (let prefixes = (if includePrefixes opts
                      then (case CommonPrefixes response of None \<Rightarrow> [] | Some ps \<Rightarrow> ps)
                      else [])
      in map prefix_item
           (filter (\<lambda>item. \<not> ((\<not> includeSelf opts \<and> Prefix item = Some prefix)
                               \<or> Prefix item = None)) prefixes)
         @ map object_item
           (filter (\<lambda>item. \<not> ((\<not> includeSelf opts \<and> Key item = Some prefix)
                               \<or> Key item = None))
                   (case Contents response of None \<Rightarrow> [] | Some cs \<Rightarrow> cs)))"

text \<open>
  The generator \<^verbatim>\<open>listObjects\<close>, run to its end: the items it yields, and the error of
  the client that ended it, if one did. The backend may report more pages for ever, so
  the loop takes fuel, one unit for each request; \<open>None\<close> is a listing that has not
  ended when the fuel is spent.
\<close>

fun listObjects_loop ::
  "nat \<Rightarrow> AwsS3FileStorage \<Rightarrow> string \<Rightarrow> list_options \<Rightarrow> nat \<Rightarrow> bool \<Rightarrow> string option
     \<Rightarrow> (listed list \<times> error option) option" where
  "listObjects_loop 0 s prefix opts collectedKeys shouldContinue continuationToken =
     (if keep_listing opts collectedKeys shouldContinue then None else Some ([], None))"
| "listObjects_loop (Suc fuel) s prefix opts collectedKeys shouldContinue continuationToken =
     (if keep_listing opts collectedKeys shouldContinue then
        (case send_ListObjectsV2 (client s)
                (ListObjectsV2Command (bucketName (options s)) prefix
                   (if deep opts then None else Some ''/'') continuationToken (maxKeys opts)) of
           Inl e \<Rightarrow> Some ([], Some (Thrown e))
         | Inr response \<Rightarrow>
             (let yielded = page_items opts prefix response in
              case listObjects_loop fuel s prefix opts (collectedKeys + length yielded)
                     (case IsTruncated response of None \<Rightarrow> False | Some b \<Rightarrow> b)
                     (NextContinuationToken response) of
                None \<Rightarrow> None
              | Some (rest, err) \<Rightarrow> Some (yielded @ rest, err)))
      else Some ([], None))"

definition listObjects ::
  "nat \<Rightarrow> AwsS3FileStorage \<Rightarrow> string \<Rightarrow> list_options \<Rightarrow> (listed list \<times> error option) option" where
  "listObjects fuel s path opts =
     (let prefix = prefixDirectoryPath (prefixer s) path
      in listObjects_loop fuel s prefix opts 0 True None)"

text \<open>
  The body of the \<^verbatim>\<open>for await\<close> loop of \<^verbatim>\<open>list\<close> for one item. The source asserts
  \<^verbatim>\<open>item.Prefix!\<close> and \<^verbatim>\<open>item.Key!\<close>; on \<^verbatim>\<open>undefined\<close>, \<^verbatim>\<open>path.endsWith\<close> is a \<^verbatim>\<open>TypeError\<close>.
\<close>

definition endsWith_slash :: "string \<Rightarrow> bool" where
  "endsWith_slash p = (p \<noteq> [] \<and> last p = CHR ''/'')"

definition list_entry :: "AwsS3FileStorage \<Rightarrow> listed \<Rightarrow> error + StatEntry" where
  "list_entry s x =
     (case x of
        prefix_item item \<Rightarrow>
          (case Prefix item of
             None \<Rightarrow> Inl TypeError
           | Some p \<Rightarrow>
               Inr \<lparr>type = ''directory'', isFile = False, isDirectory = True,
                    entryPath = stripDirectoryPath (prefixer s) p,
                    entrySize = None, lastModifiedMs = None, entryMimeType = None\<rparr>)
      | object_item item \<Rightarrow>
          (case Key item of
             None \<Rightarrow> Inl TypeError
           | Some p \<Rightarrow>
               if endsWith_slash p then
                 Inr \<lparr>type = ''directory'', isFile = False, isDirectory = True,
                      entryPath = stripDirectoryPath (prefixer s) p,
                      entrySize = None, lastModifiedMs = None, entryMimeType = None\<rparr>
               else
                 Inr \<lparr>type = ''file'', isFile = True, isDirectory = False,
                      entryPath = stripFilePath (prefixer s) p,
                      entrySize = Some (case Size item of None \<Rightarrow> 0 | Some n \<Rightarrow> n),
                      lastModifiedMs = map_option getMilliseconds (LastModified item),
                      entryMimeType = None\<rparr>))"

text \<open>The entries yielded for a run of items; an error ends the generator.\<close>

fun list_entries ::
  "AwsS3FileStorage \<Rightarrow> listed list \<Rightarrow> error option \<Rightarrow> StatEntry list \<times> error option" where
  "list_entries s [] err = ([], err)"
| "list_entries s (x # xs) err =
     (case list_entry s x of
        Inl e \<Rightarrow> ([], Some e)
      | Inr entry \<Rightarrow> (case list_entries s xs err of (es, err') \<Rightarrow> (entry # es, err')))"

definition list ::
  "nat \<Rightarrow> AwsS3FileStorage \<Rightarrow> string \<Rightarrow> bool \<Rightarrow> (StatEntry list \<times> error option) option" where
  "list fuel s path deep_opt =
     (case listObjects fuel s path
             \<lparr>deep = deep_opt, includePrefixes = True, includeSelf = False, maxKeys = None\<rparr> of
        None \<Rightarrow> None
      | Some (listing, err) \<Rightarrow> Some (list_entries s listing err))"

subsection \<open>Reading and inspecting one object\<close>

definition read :: "AwsS3FileStorage \<Rightarrow> string \<Rightarrow> error + Readable" where
  "read s path =
     (case send_GetObject (client s)
             (GetObjectCommand (bucketName (options s)) (prefixFilePath (prefixer s) path)) of
        Inl e \<Rightarrow> Inl (Thrown e)
      | Inr response \<Rightarrow>
          (case Body response of
             Some (ReadableBody r) \<Rightarrow> Inr r
           | _ \<Rightarrow> Inl (Error ''No response body was provided'')))"

definition stat :: "AwsS3FileStorage \<Rightarrow> string \<Rightarrow> error + StatEntry" where
  "stat s path =
     (case send_HeadObject (client s)
             (HeadObjectCommand (bucketName (options s)) (prefixFilePath (prefixer s) path) None) of
        Inl e \<Rightarrow> Inl (Thrown e)
      | Inr response \<Rightarrow>
          Inr \<lparr>type = ''file'', isFile = True, isDirectory = False,
               entryPath = path,
               entrySize = Some (case ContentLength response of None \<Rightarrow> 0 | Some n \<Rightarrow> n),
               lastModifiedMs = map_option getMilliseconds (HeadLastModified response),
               entryMimeType = ContentType response\<rparr>)"

text \<open>
  \<^verbatim>\<open>lookupMimeTypeFromStream\<close>. \<^verbatim>\<open>Readable.from\<close> of a readable emits the same chunks and
  finishes the same way. The second component lists the streams handed to
  \<^verbatim>\<open>closeReadable\<close>; when \<^verbatim>\<open>read\<close> or \<^verbatim>\<open>resolveMimeType\<close> rejects, the rejection leaves the
  function before \<^verbatim>\<open>closeReadable\<close> is reached.

  Modelled from the spec: \<^verbatim>\<open>closeReadable\<close> of \<^verbatim>\<open>@flystorage/file-storage\<close> is not among
  the sources. The spec says the extra stream is discarded afterwards; the model
  records the stream and goes on.
\<close>

definition lookupMimeTypeFromStream ::
  "libs \<Rightarrow> AwsS3FileStorage \<Rightarrow> string \<Rightarrow> (error + string option) option \<times> Readable list" where
  "lookupMimeTypeFromStream L s path =
     (case read s path of
        Inl e \<Rightarrow> (Some (Inl e), [])
      | Inr body \<Rightarrow>
          (case resolveMimeType L path body None of
             None \<Rightarrow> (None, [])
           | Some (Inl e) \<Rightarrow> (Some (Inl e), [])
           | Some (Inr (mimetype, stream)) \<Rightarrow> (Some (Inr mimetype), [stream])))"

text \<open>
  \<^verbatim>\<open>mimeType\<close>: the settled value of the promise (\<open>None\<close> when the stream resolver never
  settles) and the streams closed on the way. The path lookup is \<^verbatim>\<open>lookup\<close> of
  \<^verbatim>\<open>mime-types\<close>, the \<open>mimeTimeForExt\<close> of the libraries.
\<close>

definition mimeType ::
  "libs \<Rightarrow> AwsS3FileStorage \<Rightarrow> string \<Rightarrow> MimeTypeOptions
     \<Rightarrow> (error + string) option \<times> Readable list" where
  "mimeType L s path opts =
     (case stat s path of
        Inl e \<Rightarrow> (Some (Inl e), [])
      | Inr response \<Rightarrow>
          if \<not> isFile response then
            (Some (Inl (Error (''Path '' @ [CHR 0x22] @ path @ '' is not a file.''))), [])
          else if entryMimeType response \<noteq> None \<and> entryMimeType response \<noteq> Some [] then
            (Some (Inr (case entryMimeType response of Some m \<Rightarrow> m | None \<Rightarrow> [])), [])
          else if disallowFallback opts = Some True then
            (Some (Inl (Error ''Mime-type not available via HeadObject'')), [])
          else
            (let method = (case fallbackMethod opts of None \<Rightarrow> ''path'' | Some m \<Rightarrow> m);
                 (found, closed) =
                    (if method = ''path'' then (Some (Inr (mimeTimeForExt L path)), [])
                     else lookupMimeTypeFromStream L s path)
             in case found of
                  None \<Rightarrow> (None, closed)
                | Some (Inl e) \<Rightarrow> (Some (Inl e), closed)
                | Some (Inr None) \<Rightarrow> (Some (Inl (Error ''Unable to resolve mime-type'')), closed)
                | Some (Inr (Some m)) \<Rightarrow> (Some (Inr m), closed)))"

subsection \<open>Visibility\<close>

definition visibility :: "AwsS3FileStorage \<Rightarrow> string \<Rightarrow> error + string" where
  "visibility s path =
     (case send_GetObjectAcl (client s)
             (GetObjectAclCommand (bucketName (options s)) (prefixFilePath (prefixer s) path)) of
        Inl e \<Rightarrow> Inl (Thrown e)
      | Inr response \<Rightarrow>
          (let publicRead =
                 (case Grants response of
                    None \<Rightarrow> False
                  | Some gs \<Rightarrow>
                      list_ex (\<lambda>grant.
                        (case Grantee grant of None \<Rightarrow> None | Some g \<Rightarrow> URI g)
                          = Some ''http://acs.amazonaws.com/groups/global/AllUsers''
                        \<and> Permission grant = Some ''READ'') gs)
           in Inr (if publicRead then Visibility_PUBLIC else Visibility_PRIVATE)))"

definition visibilityToAcl :: "string \<Rightarrow> error + string" where
  "visibilityToAcl v =
     (if v = Visibility_PUBLIC then Inr ''public-read''
      else if v = Visibility_PRIVATE then Inr ''private''
      else Inl (Error (''Unrecognized visibility provided; '' @ v)))"

subsection \<open>Deleting a directory\<close>

text \<open>
  The \<^verbatim>\<open>for await\<close> loop of \<^verbatim>\<open>deleteDirectory\<close>: the bucket being filled and the
  batches flushed so far, in the order of their dispatch. A yielded prefix has no
  \<^verbatim>\<open>Key\<close>.
\<close>

definition item_Key :: "listed \<Rightarrow> string option" where
  "item_Key x = (case x of object_item item \<Rightarrow> Key item | prefix_item item \<Rightarrow> None)"

fun fill_buckets ::
  "string option list \<Rightarrow> string option list list \<Rightarrow> listed list
     \<Rightarrow> string option list \<times> string option list list" where
  "fill_buckets bucket promises [] = (bucket, promises)"
| "fill_buckets bucket promises (x # xs) =
     (let bucket = bucket @ [item_Key x] in
      if length bucket > 1000 then fill_buckets [] (promises @ [bucket]) xs
      else fill_buckets bucket promises xs)"

definition flush :: "AwsS3FileStorage \<Rightarrow> string option list \<Rightarrow> S3Error + unit" where
  "flush s keys = send_DeleteObjects (client s) (DeleteObjectsCommand (bucketName (options s)) keys)"

text \<open>
  \<^verbatim>\<open>Promise.all\<close> rejects with the rejection that happens first; the model takes the
  first one in the order of dispatch.
\<close>

fun await_all :: "(S3Error + unit) list \<Rightarrow> error + unit" where
  "await_all [] = Inr ()"
| "await_all (Inl e # rs) = Inl (Thrown e)"
| "await_all (Inr u # rs) = await_all rs"

text \<open>
  \<^verbatim>\<open>deleteDirectory\<close>: the batches it has dispatched, each one the keys of one
  \<^verbatim>\<open>DeleteObjectsCommand\<close>, and how its promise settles. An error of the listing leaves
  the loop at once: the batches flushed before it are in flight, the bucket is not sent.
\<close>

definition deleteDirectory ::
  "nat \<Rightarrow> AwsS3FileStorage \<Rightarrow> string \<Rightarrow> (string option list list \<times> (error + unit)) option" where
  "deleteDirectory fuel s path =
     (case listObjects fuel s path
             \<lparr>deep = True, includePrefixes = False, includeSelf = True, maxKeys = None\<rparr> of
        None \<Rightarrow> None
      | Some (itemsToDelete, err) \<Rightarrow>
          (case fill_buckets [] [] itemsToDelete of
             (bucket, promises) \<Rightarrow>
               (case err of
                  Some e \<Rightarrow> Some (promises, Inl e)
                | None \<Rightarrow>
                    (let promises = (if length bucket > 0 then promises @ [bucket] else promises)
                     in Some (promises, await_all (map (flush s) promises))))))"

subsection \<open>Existence\<close>

definition fileExists :: "AwsS3FileStorage \<Rightarrow> string \<Rightarrow> error + bool" where
  "fileExists s path =
     (case send_HeadObject (client s)
             (HeadObjectCommand (bucketName (options s)) (prefixFilePath (prefixer s) path) None) of
        Inr response \<Rightarrow> Inr True
      | Inl e \<Rightarrow>
          (case e of
             S3ServiceException status \<Rightarrow>
               if status = Some 404 then Inr False else Inl (Thrown e)
           | OtherException m \<Rightarrow> Inl (Thrown e)))"

text \<open>
  \<^verbatim>\<open>directoryExists\<close> returns at the first item and leaves the generator there. With
  \<^verbatim>\<open>maxKeys: 1\<close> the loop of \<^verbatim>\<open>listObjects\<close> stops after the first response with an item
  as well, so the listing run to its end has made the same requests
  (\<open>directoryExists_first_listed\<close> below).
\<close>

definition directoryExists :: "nat \<Rightarrow> AwsS3FileStorage \<Rightarrow> string \<Rightarrow> (error + bool) option" where
  "directoryExists fuel s path =
     (case listObjects fuel s path
             \<lparr>deep = True, includePrefixes = True, includeSelf = True, maxKeys = Some 1\<rparr> of
        None \<Rightarrow> None
      | Some (listing, err) \<Rightarrow>
          (case listing of
             item # rest \<Rightarrow> Some (Inr True)
           | [] \<Rightarrow> (case err of Some e \<Rightarrow> Some (Inl e) | None \<Rightarrow> Some (Inr False))))"

text \<open>
  The generator \<^verbatim>\<open>listObjects\<close> advanced to its first \<^verbatim>\<open>yield\<close> only, which is how the loop
  of \<^verbatim>\<open>directoryExists\<close> runs it: the first item, or \<open>None\<close> when the generator returns
  without one. Nothing is collected before the first item, so \<^verbatim>\<open>collectedKeys\<close> is 0.
\<close>

fun first_listed ::
  "nat \<Rightarrow> AwsS3FileStorage \<Rightarrow> string \<Rightarrow> list_options \<Rightarrow> bool \<Rightarrow> string option
     \<Rightarrow> (error + listed option) option" where
  "first_listed 0 s prefix opts shouldContinue continuationToken =
     (if keep_listing opts 0 shouldContinue then None else Some (Inr None))"
| "first_listed (Suc fuel) s prefix opts shouldContinue continuationToken =
     (if keep_listing opts 0 shouldContinue then
        (case send_ListObjectsV2 (client s)
                (ListObjectsV2Command (bucketName (options s)) prefix
                   (if deep opts then None else Some ''/'') continuationToken (maxKeys opts)) of
           Inl e \<Rightarrow> Some (Inl (Thrown e))
         | Inr response \<Rightarrow>
             (case page_items opts prefix response of
                item # rest \<Rightarrow> Some (Inr (Some item))
              | [] \<Rightarrow>
                  first_listed fuel s prefix opts
                    (case IsTruncated response of None \<Rightarrow> False | Some b \<Rightarrow> b)
                    (NextContinuationToken response)))
      else Some (Inr None))"

subsection \<open>Checksums\<close>





subsection \<open>An object store behind the client\<close>

text \<open>
  The client is a parameter of the adapter. What a listing holds is decided by the
  backend, so the properties of \<^verbatim>\<open>list\<close> that depend on it are stated for the clients
  that answer \<^verbatim>\<open>ListObjectsV2\<close> from a set of stored objects the way S3 documents it: the
  objects whose key starts with the prefix; with a delimiter, a key that has the
  delimiter behind the prefix is not returned itself but rolled up into its common
  prefix, and each common prefix is returned once; the results come in pages, with a
  continuation token for the next page. This is the behaviour of the service, not code
  of the repository; it only appears as a hypothesis on \<open>send_ListObjectsV2\<close>.
\<close>

text \<open>The stored objects: key, size and time of the last modification.\<close>

type_synonym object_store = "(string \<times> nat \<times> Date) list"

definition starts_with :: "string \<Rightarrow> string \<Rightarrow> bool" where
  "starts_with pre k = (take (length pre) k = pre)"

definition stored_object :: "string \<times> nat \<times> Date \<Rightarrow> S3Object" where
  "stored_object x = (case x of (k, n, t) \<Rightarrow> \<lparr>Key = Some k, Size = Some n, LastModified = Some t\<rparr>)"

text \<open>
  The common prefix of a key: the key up to and including the first delimiter behind the
  prefix, if there is one.
\<close>

definition rolled_up :: "char \<Rightarrow> string \<Rightarrow> string \<Rightarrow> string option" where
  "rolled_up c pre k =
     (let rest = drop (length pre) k
      in if c \<in> set rest then Some (pre @ takeWhile (\<lambda>x. x \<noteq> c) rest @ [c]) else None)"

text \<open>
  All that a listing returns, before it is cut into pages. Only a delimiter of one
  character rolls keys up.
\<close>

definition store_results :: "object_store \<Rightarrow> string \<Rightarrow> string option \<Rightarrow> listed list" where
  "store_results store pre delimiter =
     (let matching = filter (\<lambda>x. starts_with pre (fst x)) store in
      case delimiter of
        Some [c] \<Rightarrow>
          map (\<lambda>p. prefix_item \<lparr>Prefix = Some p\<rparr>)
            (remdups (List.map_filter (\<lambda>x. rolled_up c pre (fst x)) matching))
          @ map (\<lambda>x. object_item (stored_object x))
              (filter (\<lambda>x. rolled_up c pre (fst x) = None) matching)
      | _ \<Rightarrow> map (\<lambda>x. object_item (stored_object x)) matching)"

text \<open>
  One page: \<open>order\<close> is the order in which the backend returns its results, \<open>page\<close> the
  most it returns at once; the continuation token of this model says where the next page
  starts by its length.
\<close>

definition store_list ::
  "(listed list \<Rightarrow> listed list) \<Rightarrow> object_store \<Rightarrow> nat \<Rightarrow> ListObjectsV2Command
     \<Rightarrow> S3Error + ListObjectsV2Output" where
  "store_list order store page cmd =
     (case cmd of ListObjectsV2Command b pre delimiter token mk \<Rightarrow>
        (let results = order (store_results store pre delimiter);
             offset = (case token of None \<Rightarrow> 0 | Some t \<Rightarrow> length t);
             n = (case mk of None \<Rightarrow> page | Some m \<Rightarrow> min m page);
             part = take n (drop offset results);
             more = (offset + n < length results)
         in Inr \<lparr>NextContinuationToken =
                   (if more then Some (replicate (offset + n) (CHR ''x'')) else None),
                 IsTruncated = Some more,
                 CommonPrefixes = Some (List.map_filter
                    (\<lambda>x. case x of prefix_item p \<Rightarrow> Some p | object_item obj \<Rightarrow> None) part),
                 Contents = Some (List.map_filter
                    (\<lambda>x. case x of object_item obj \<Rightarrow> Some obj | prefix_item p \<Rightarrow> None) part)\<rparr>))"

text \<open>
  A key is plain below a prefix when what follows the prefix neither begins with the
  delimiter nor ends in two of them: there is no empty name right below the prefix, and
  none before the last separator of a directory marker.
\<close>

definition plain_key :: "string \<Rightarrow> string \<Rightarrow> bool" where
  "plain_key pre k =
     (let rest = drop (length pre) k in take 1 rest \<noteq> ''/'' \<and> take 2 (rev rest) \<noteq> ''//'')"

text \<open>
  The key or prefix of a yielded item, and the test of \<^verbatim>\<open>listObjects\<close> that lets an item
  through, on either kind of item.
\<close>

definition listed_key :: "listed \<Rightarrow> string option" where
  "listed_key x = (case x of prefix_item item \<Rightarrow> Prefix item | object_item item \<Rightarrow> Key item)"

definition yielded :: "list_options \<Rightarrow> string \<Rightarrow> listed \<Rightarrow> bool" where
  "yielded opts pre x =
     (\<not> ((\<not> includeSelf opts \<and> listed_key x = Some pre) \<or> listed_key x = None))"

subsection \<open>An example backend\<close>

text \<open>
  A small bucket to run the adapter on, after the one of the repository's tests
  (bucket \<^verbatim>\<open>flysystem-check\<close>, prefix \<^verbatim>\<open>storage/tests\<close>). The prefixer of the example
  puts the 14 characters \<^verbatim>\<open>storage/tests/\<close> in front of a path and takes them away again.
\<close>

definition example_prefixer :: PathPrefixer where
  "example_prefixer =
     \<lparr>prefixFilePath = (\<lambda>p. ''storage/tests/'' @ p),
      prefixDirectoryPath = (\<lambda>p. ''storage/tests/'' @ p @ ''/''),
      stripFilePath = (\<lambda>k. drop 14 k),
      stripDirectoryPath = (\<lambda>k. rev (dropWhile (\<lambda>c. c = CHR ''/'') (rev (drop 14 k))))\<rparr>"

definition png_bytes :: "Uint8Array list" where
  "png_bytes = [[137, 80, 78, 71], [13, 10, 26, 10]]"

definition example_head :: "HeadObjectCommand \<Rightarrow> S3Error + HeadObjectOutput" where
  "example_head cmd =
     (case cmd of HeadObjectCommand b k mode \<Rightarrow>
        if k = ''storage/tests/path.txt'' then
          Inr \<lparr>ContentLength = Some 24, HeadLastModified = Some 1700000000123,
               ContentType = Some ''text/plain'',
               ETag = Some ([CHR 0x22] @ ''5ca2bd4a'' @ [CHR 0x22]),
               ChecksumSHA1 = None,
               ChecksumSHA256 = (if mode = Some ''ENABLED'' then Some ''kq7zkQ=='' else None),
               ChecksumCRC32 = None, ChecksumCRC32C = None\<rparr>
        else if k = ''storage/tests/image.png'' \<or> k = ''storage/tests/blob''
                \<or> k = ''storage/tests/cut'' then
          Inr \<lparr>ContentLength = Some 8, HeadLastModified = None, ContentType = None,
               ETag = None, ChecksumSHA1 = None, ChecksumSHA256 = None,
               ChecksumCRC32 = None, ChecksumCRC32C = None\<rparr>
        else if k = ''storage/tests/docs/'' then
          Inr \<lparr>ContentLength = Some 0, HeadLastModified = Some 1700000000000, ContentType = None,
               ETag = None, ChecksumSHA1 = None, ChecksumSHA256 = None,
               ChecksumCRC32 = None, ChecksumCRC32C = None\<rparr>
        else if k = ''storage/tests/secret.txt'' then Inl (S3ServiceException (Some 403))
        else Inl (S3ServiceException (Some 404)))"

definition example_get :: "GetObjectCommand \<Rightarrow> S3Error + GetObjectOutput" where
  "example_get cmd =
     (case cmd of GetObjectCommand b k \<Rightarrow>
        if k = ''storage/tests/image.png'' \<or> k = ''storage/tests/blob'' then
          Inr \<lparr>Body = Some (ReadableBody \<lparr>chunks = png_bytes, finish = End\<rparr>)\<rparr>
        else if k = ''storage/tests/cut'' then
          Inr \<lparr>Body = Some (ReadableBody \<lparr>chunks = [[26, 69, 223, 163]], finish = End\<rparr>)\<rparr>
        else Inl (S3ServiceException (Some 404)))"

definition example_acl :: "GetObjectAclCommand \<Rightarrow> S3Error + GetObjectAclOutput" where
  "example_acl cmd =
     (case cmd of GetObjectAclCommand b k \<Rightarrow>
        if k = ''storage/tests/public.txt'' then
          Inr \<lparr>Grants = Some
                 [\<lparr>Grantee = Some \<lparr>URI = None\<rparr>, Permission = Some ''FULL_CONTROL''\<rparr>,
                  \<lparr>Grantee = Some \<lparr>URI = Some ''http://acs.amazonaws.com/groups/global/AllUsers''\<rparr>,
                   Permission = Some ''READ''\<rparr>]\<rparr>
        else if k = ''storage/tests/private.txt'' then
          Inr \<lparr>Grants = Some
                 [\<lparr>Grantee = Some \<lparr>URI = None\<rparr>, Permission = Some ''FULL_CONTROL''\<rparr>]\<rparr>
        else Inl (S3ServiceException (Some 404)))"

definition big_object :: "nat \<Rightarrow> S3Object" where
  "big_object i =
     \<lparr>Key = Some (''storage/tests/big/'' @ replicate (Suc i) (CHR ''x'')), Size = Some 0,
      LastModified = None\<rparr>"

text \<open>
  The listings of the example. The 1001 objects below \<^verbatim>\<open>big/\<close> come in a page of 1000
  and a page of 1. The listing below \<^verbatim>\<open>flaky/\<close> has a first page without entries that
  reports a further page, and the request for that page fails.
\<close>

definition example_list :: "ListObjectsV2Command \<Rightarrow> S3Error + ListObjectsV2Output" where
  "example_list cmd =
     (case cmd of ListObjectsV2Command b pre delimiter token mk \<Rightarrow>
        if pre = ''storage/tests/docs/'' then
          (if delimiter = None then
             Inr \<lparr>NextContinuationToken = None, IsTruncated = Some False, CommonPrefixes = None,
                  Contents = Some
                    [\<lparr>Key = Some ''storage/tests/docs/'', Size = Some 0, LastModified = None\<rparr>,
                     \<lparr>Key = Some ''storage/tests/docs/a.txt'', Size = Some 3,
                      LastModified = Some 1700000000123\<rparr>,
                     \<lparr>Key = Some ''storage/tests/docs/sub/b.txt'', Size = Some 4,
                      LastModified = Some 1700000456789\<rparr>]\<rparr>
           else
             Inr \<lparr>NextContinuationToken = None, IsTruncated = Some False,
                  CommonPrefixes = Some [\<lparr>Prefix = Some ''storage/tests/docs/sub/''\<rparr>],
                  Contents = Some
                    [\<lparr>Key = Some ''storage/tests/docs/'', Size = Some 0, LastModified = None\<rparr>,
                     \<lparr>Key = Some ''storage/tests/docs/a.txt'', Size = Some 3,
                      LastModified = Some 1700000000123\<rparr>]\<rparr>)
        else if pre = ''storage/tests/big/'' then
          (if token = None then
             Inr \<lparr>NextContinuationToken = Some ''1000'', IsTruncated = Some True,
                  CommonPrefixes = None, Contents = Some (map big_object [0..<1000])\<rparr>
           else
             Inr \<lparr>NextContinuationToken = None, IsTruncated = Some False,
                  CommonPrefixes = None, Contents = Some [big_object 1000]\<rparr>)
        else if pre = ''storage/tests/locked/'' then Inl (S3ServiceException (Some 403))
        else if pre = ''storage/tests/flaky/'' then
          (if token = None then
             Inr \<lparr>NextContinuationToken = Some ''next'', IsTruncated = Some True,
                  CommonPrefixes = None, Contents = None\<rparr>
           else Inl (S3ServiceException (Some 500)))
        else
          Inr \<lparr>NextContinuationToken = None, IsTruncated = Some False, CommonPrefixes = None,
               Contents = None\<rparr>)"



definition example_storage :: AwsS3FileStorage where
  "example_storage =
     \<lparr>client = \<lparr>send_ListObjectsV2 = example_list, send_HeadObject = example_head,
                 send_GetObject = example_get, send_GetObjectAcl = example_acl,
                 send_DeleteObjects = (\<lambda>cmd. Inr ())\<rparr>,
      options = \<lparr>bucketName = ''flysystem-check'', defaultChecksumAlgo = None\<rparr>,
      prefixer = example_prefixer\<rparr>"

text \<open>
  Libraries for the example: a signature detector that knows PNG and rejects on the head
  of the object \<^verbatim>\<open>cut\<close>, and an extension table with two entries.
\<close>

definition ext_of :: "string \<Rightarrow> string" where
  "ext_of p = rev (takeWhile (\<lambda>c. c \<noteq> CHR ''.'') (rev p))"

definition example_libs :: libs where
  "example_libs =
     \<lparr>fileTypeFromBuffer = (\<lambda>b. if take 4 b = [137, 80, 78, 71] then Inr (Some ''image/png'')
                                else if b = [26, 69, 223, 163] then Inl (Error ''detection failed'')
                                else Inr None),
      parse_ext = (\<lambda>f. if CHR ''.'' \<in> set f then CHR ''.'' # ext_of f else []),
      mimeTimeForExt = (\<lambda>p. if ext_of p = ''png'' then Some ''image/png''
                             else if ext_of p = ''txt'' then Some ''text/plain'' else None)\<rparr>"

text \<open>A store for the example, and the example storage with a client that lists it.\<close>

definition docs_store :: object_store where
  "docs_store = [(''storage/tests/docs/'', 0, 1700000000000),
                 (''storage/tests/docs/a.txt'', 3, 1700000000123),
                 (''storage/tests/docs/sub/'', 0, 1700000000500),
                 (''storage/tests/docs/sub/b.txt'', 4, 1700000456789),
                 (''storage/tests/docs/sub/deep/c.txt'', 5, 1700000456790),
                 (''storage/tests/other.txt'', 1, 1700000000001)]"

definition docs_storage :: "nat \<Rightarrow> AwsS3FileStorage" where
  "docs_storage page =
     example_storage\<lparr>client := (client example_storage)
        \<lparr>send_ListObjectsV2 := store_list (\<lambda>xs. xs) docs_store page\<rparr>\<rparr>"

text \<open>
  A store with keys that have an empty name in them: a file below \<^verbatim>\<open>docs//\<close>, and two
  markers for \<^verbatim>\<open>docs/sub\<close>, one of them with a second separator.
\<close>

definition slash_store :: object_store where
  "slash_store = [(''storage/tests/docs//notes.txt'', 2, 1700000000002),
                  (''storage/tests/docs/a.txt'', 3, 1700000000123),
                  (''storage/tests/docs/sub/'', 0, 1700000000500),
                  (''storage/tests/docs/sub//'', 0, 1700000000501)]"

definition slash_storage :: "nat \<Rightarrow> AwsS3FileStorage" where
  "slash_storage page =
     example_storage\<lparr>client := (client example_storage)
        \<lparr>send_ListObjectsV2 := store_list (\<lambda>xs. xs) slash_store page\<rparr>\<rparr>"

section \<open>Properties of the stream mime-type resolver\<close>

lemma fold_length_sum: "fold (\<lambda>a l. l + length a) xs n = n + length (concat xs)"
  by (induction xs arbitrary: n) auto

lemma fold_set_at:
  "pos + length (concat xs) \<le> length out \<Longrightarrow>
   fold (\<lambda>i (out, position). (set_at out i position, position + length i)) xs (out, pos)
     = (take pos out @ concat xs @ drop (pos + length (concat xs)) out, pos + length (concat xs))"
proof (induction xs arbitrary: out pos)
  case Nil
  then show ?case by simp
next
  case (Cons x xs)
  have len: "length (set_at out x pos) = length out"
    using Cons.prems by (simp add: set_at_def)
  have tk: "take (pos + length x) (set_at out x pos) = take pos out @ x"
    using Cons.prems by (simp add: set_at_def)
  have dr: "drop (pos + (length x + length (concat xs))) (set_at out x pos)
              = drop (pos + (length x + length (concat xs))) out"
    using Cons.prems by (simp add: set_at_def ac_simps)
  have "pos + length x + length (concat xs) \<le> length (set_at out x pos)"
    using Cons.prems len by simp
  from Cons.IH [OF this] show ?case
    by (simp add: tk dr add.assoc)
qed

lemma concatUint8Arrays_concat: "concatUint8Arrays input = concat input"
  by (simp add: concatUint8Arrays_def fold_length_sum fold_set_at)

lemma tunnel_data_content: "concat (tunnel_data stream) = content stream"
proof -
  have "concat (filter (\<lambda>c. c \<noteq> []) cs) = concat cs" for cs :: "Uint8Array list"
    by (induction cs) auto
  then show ?thesis by (simp add: tunnel_data_def content_def)
qed

lemma on_data_piped: "piped (on_data sz c st) = piped st @ [c]"
  by (simp add: on_data_def Let_def)

lemma fold_on_data_piped: "piped (fold (on_data sz) cs st) = piped st @ cs"
  by (induction cs arbitrary: st) (simp_all add: on_data_piped)

lemma on_data_settled: "(resolved st \<longrightarrow> settled st \<noteq> None) \<Longrightarrow>
   (resolved (on_data sz c st) \<longrightarrow> settled (on_data sz c st) \<noteq> None)"
  by (simp add: on_data_def Let_def)

lemma fold_on_data_settled: "(resolved st \<longrightarrow> settled st \<noteq> None) \<Longrightarrow>
   (resolved (fold (on_data sz) cs st) \<longrightarrow> settled (fold (on_data sz) cs st) \<noteq> None)"
proof (induction cs arbitrary: st)
  case Nil then show ?case by simp
next
  case (Cons c cs)
  show ?case using Cons.IH [OF on_data_settled [OF Cons.prems]] by simp
qed

lemma on_end_settled: "(resolved st \<longrightarrow> settled st \<noteq> None) \<Longrightarrow> settled (on_end st) \<noteq> None"
  by (simp add: on_end_def)

lemma on_end_piped: "piped (on_end st) = piped st"
  by (simp add: on_end_def)

lemma streamHead_chunks:
  "streamHead stream sz = Some (h, r) \<Longrightarrow> chunks r = tunnel_data stream"
  by (auto simp: streamHead_def Let_def fold_on_data_piped on_end_piped head_init_def
           split: finish.splits)

lemma streamHead_content:
  "streamHead stream sz = Some (h, r) \<Longrightarrow> content r = content stream"
  using streamHead_chunks [of stream sz h r] tunnel_data_content [of stream]
  by (simp add: content_def)

lemma streamHead_finish:
  "streamHead stream sz = Some (h, r) \<Longrightarrow> finish r = (if finish stream = End then End else Pending)"
  by (auto simp: streamHead_def Let_def split: finish.splits)

lemma streamHead_End:
  assumes "finish stream = End"
  shows "\<exists>h. streamHead stream sz = Some (h, \<lparr>chunks = tunnel_data stream, finish = End\<rparr>)"
proof -
  let ?st = "fold (on_data sz) (tunnel_data stream) head_init"
  have "resolved ?st \<longrightarrow> settled ?st \<noteq> None"
    by (rule fold_on_data_settled) (simp add: head_init_def)
  then have "settled (on_end ?st) \<noteq> None" by (rule on_end_settled)
  then obtain h where "settled (on_end ?st) = Some h" by auto
  then show ?thesis using assms
    by (simp add: streamHead_def Let_def on_end_piped fold_on_data_piped head_init_def)
qed

lemma fold_on_data_short:
  "\<not> resolved st \<Longrightarrow> readBytes st + length (concat cs) < sz \<Longrightarrow>
   fold (on_data sz) cs st
     = st\<lparr>readBytes := readBytes st + length (concat cs), buffers := buffers st @ cs,
          piped := piped st @ cs\<rparr>"
proof (induction cs arbitrary: st)
  case Nil
  then show ?case by simp
next
  case (Cons c cs)
  let ?st = "on_data sz c st"
  have step: "?st = st\<lparr>readBytes := readBytes st + length c, buffers := buffers st @ [c],
                        piped := piped st @ [c]\<rparr>"
    using Cons.prems by (simp add: on_data_def Let_def)
  have "\<not> resolved ?st" and "readBytes ?st + length (concat cs) < sz"
    using Cons.prems by (simp_all add: step)
  from Cons.IH [OF this] show ?case
    by (simp add: step add.assoc)
qed

lemma streamHead_short:
  assumes "finish stream = End" and "length (content stream) < sz"
  shows "streamHead stream sz
           = Some (content stream, \<lparr>chunks = tunnel_data stream, finish = End\<rparr>)"
proof -
  have "fold (on_data sz) (tunnel_data stream) head_init
          = head_init\<lparr>readBytes := length (concat (tunnel_data stream)),
                       buffers := tunnel_data stream, piped := tunnel_data stream\<rparr>"
    using assms(2) fold_on_data_short [of head_init "tunnel_data stream" sz]
    by (simp add: head_init_def tunnel_data_content)
  then show ?thesis using assms(1)
    by (simp add: streamHead_def on_end_def head_init_def concatUint8Arrays_concat
          tunnel_data_content)
qed

text \<open>
  C2: a stream that \<^verbatim>\<open>resolveMimeType\<close> returns carries exactly the bytes of the input
  stream, in their order. When the input ends, the head is read and the output stream
  carries the whole content and ends; the promise then rejects if the detection on that
  head rejects, and otherwise resolves with that stream. For an input shorter than 4100
  bytes the head is the whole content.
\<close>

theorem resolveMimeType_replays_stream:
  "(resolveMimeType L filename stream fallback = Some (Inr (m, r)) \<longrightarrow>
      content r = content stream)
   \<and> (finish stream = End \<longrightarrow>
        (\<exists>head out. streamHead stream 4100 = Some (head, out)
           \<and> content out = content stream \<and> finish out = End
           \<and> (case fileTypeFromBuffer L head of
                 Inl e \<Rightarrow> resolveMimeType L filename stream fallback = Some (Inl e)
               | Inr t \<Rightarrow> (\<exists>m. resolveMimeType L filename stream fallback = Some (Inr (m, out))))))
   \<and> (finish stream = End \<and> length (content stream) < 4100 \<longrightarrow>
        (case fileTypeFromBuffer L (content stream) of
           Inl e \<Rightarrow> resolveMimeType L filename stream fallback = Some (Inl e)
         | Inr t \<Rightarrow> (\<exists>m out. resolveMimeType L filename stream fallback = Some (Inr (m, out))
                        \<and> content out = content stream \<and> finish out = End)))"
proof -
  have a: "content r = content stream"
    if "resolveMimeType L filename stream fallback = Some (Inr (m, r))"
  proof -
    from that obtain h where "streamHead stream 4100 = Some (h, r)"
      by (auto simp: resolveMimeType_def Let_def split: option.splits sum.splits)
    then show ?thesis by (rule streamHead_content)
  qed
  have b: "\<exists>head out. streamHead stream 4100 = Some (head, out)
           \<and> content out = content stream \<and> finish out = End
           \<and> (case fileTypeFromBuffer L head of
                 Inl e \<Rightarrow> resolveMimeType L filename stream fallback = Some (Inl e)
               | Inr t \<Rightarrow> (\<exists>m. resolveMimeType L filename stream fallback = Some (Inr (m, out))))"
    if "finish stream = End"
  proof -
    let ?out = "\<lparr>chunks = tunnel_data stream, finish = End\<rparr>"
    from streamHead_End [OF that, of 4100]
    obtain h where h: "streamHead stream 4100 = Some (h, ?out)"
      by blast
    have "case fileTypeFromBuffer L h of
                 Inl e \<Rightarrow> resolveMimeType L filename stream fallback = Some (Inl e)
               | Inr t \<Rightarrow> (\<exists>m. resolveMimeType L filename stream fallback = Some (Inr (m, ?out)))"
      using h by (simp add: resolveMimeType_def Let_def split: sum.splits option.splits)
    moreover have "content ?out = content stream"
      using h by (rule streamHead_content)
    ultimately show ?thesis using h by auto
  qed
  have c: "case fileTypeFromBuffer L (content stream) of
           Inl e \<Rightarrow> resolveMimeType L filename stream fallback = Some (Inl e)
         | Inr t \<Rightarrow> (\<exists>m out. resolveMimeType L filename stream fallback = Some (Inr (m, out))
                        \<and> content out = content stream \<and> finish out = End)"
    if "finish stream = End" and "length (content stream) < 4100"
  proof -
    let ?out = "\<lparr>chunks = tunnel_data stream, finish = End\<rparr>"
    have "content ?out = content stream"
      by (simp add: content_def tunnel_data_content [unfolded content_def])
    then show ?thesis
      using streamHead_short [OF that]
      by (auto simp: resolveMimeType_def Let_def split: sum.splits option.splits)
  qed
  from a b c show ?thesis by blast
qed

theorem resolveMimeType_replays_stream_witness:
  "(\<exists>m out. resolveMimeType example_libs ''notes.txt''
                \<lparr>chunks = [[104, 105], [], [33]], finish = End\<rparr> None = Some (Inr (m, out))
            \<and> content out = [104, 105, 33] \<and> finish out = End)
   \<and> resolveMimeType example_libs ''clip.txt''
         \<lparr>chunks = [[26, 69], [223, 163]], finish = End\<rparr> None = Some (Inl (Error ''detection failed''))"
proof -
  let ?notes = "\<lparr>chunks = [[104, 105], [], [33 :: 8 word]], finish = End\<rparr>"
  let ?clip = "\<lparr>chunks = [[26, 69], [223, 163 :: 8 word]], finish = End\<rparr>"
  have n: "finish ?notes = End \<and> length (content ?notes) < 4100"
    "content ?notes = [104, 105, 33]"
    "fileTypeFromBuffer example_libs [104, 105, 33] = Inr None"
    by (simp_all add: content_def example_libs_def)
  have c: "finish ?clip = End \<and> length (content ?clip) < 4100"
    "content ?clip = [26, 69, 223, 163]"
    "fileTypeFromBuffer example_libs [26, 69, 223, 163] = Inl (Error ''detection failed'')"
    by (simp_all add: content_def example_libs_def)
  from resolveMimeType_replays_stream [of example_libs "''notes.txt''" ?notes None] n
  have 1: "\<exists>m out. resolveMimeType example_libs ''notes.txt'' ?notes None = Some (Inr (m, out))
            \<and> content out = [104, 105, 33] \<and> finish out = End"
    by simp
  from resolveMimeType_replays_stream [of example_libs "''clip.txt''" ?clip None] c
  have 2: "resolveMimeType example_libs ''clip.txt'' ?clip None = Some (Inl (Error ''detection failed''))"
    by simp
  from 1 2 show ?thesis by (rule conjI)
qed

text \<open>
  C4, amended: with \<open>head\<close> the buffered head of the stream, \<^verbatim>\<open>resolveMimeType\<close> rejects
  with the error of the signature detection if the detection on \<open>head\<close> rejects. If the
  detection completes, it returns the type that the detection finds, if it finds one;
  otherwise the type that the lookup by the extension of the filename gives (the
  library gives a non-empty string or \<^verbatim>\<open>false\<close>), if it gives one; otherwise the
  fallback of the caller, which is \<^verbatim>\<open>undefined\<close> (\<open>None\<close>) when the caller passed none.
\<close>

theorem resolveMimeType_order:
  assumes "streamHead stream 4100 = Some (head, readable)"
  shows "(\<forall>e. fileTypeFromBuffer L head = Inl e \<longrightarrow>
            resolveMimeType L filename stream fallback = Some (Inl e))
       \<and> (\<forall>t. fileTypeFromBuffer L head = Inr (Some t) \<longrightarrow>
            resolveMimeType L filename stream fallback = Some (Inr (Some t, readable)))
       \<and> (\<forall>t. fileTypeFromBuffer L head = Inr None
              \<and> mimeTimeForExt L (parse_ext L filename) = Some t \<and> t \<noteq> [] \<longrightarrow>
            resolveMimeType L filename stream fallback = Some (Inr (Some t, readable)))
       \<and> (fileTypeFromBuffer L head = Inr None
              \<and> mimeTimeForExt L (parse_ext L filename) \<in> {None, Some []} \<longrightarrow>
            resolveMimeType L filename stream fallback = Some (Inr (fallback, readable)))"
  using assms by (auto simp: resolveMimeType_def Let_def js_or_def)

theorem resolveMimeType_order_witness:
  "resolveMimeType example_libs ''a.txt'' \<lparr>chunks = [[137, 80], [78, 71, 13]], finish = End\<rparr> None
     = Some (Inr (Some ''image/png'', \<lparr>chunks = [[137, 80], [78, 71, 13]], finish = End\<rparr>))
   \<and> resolveMimeType example_libs ''a.txt'' \<lparr>chunks = [[104, 105]], finish = End\<rparr> None
     = Some (Inr (Some ''text/plain'', \<lparr>chunks = [[104, 105]], finish = End\<rparr>))
   \<and> resolveMimeType example_libs ''a.bin'' \<lparr>chunks = [[104, 105]], finish = End\<rparr>
         (Some ''application/octet-stream'')
     = Some (Inr (Some ''application/octet-stream'', \<lparr>chunks = [[104, 105]], finish = End\<rparr>))
   \<and> resolveMimeType example_libs ''a.bin'' \<lparr>chunks = [[104, 105]], finish = End\<rparr> None
     = Some (Inr (None, \<lparr>chunks = [[104, 105]], finish = End\<rparr>))
   \<and> resolveMimeType example_libs ''a.bin'' \<lparr>chunks = [[26, 69, 223, 163]], finish = End\<rparr>
         (Some ''application/octet-stream'')
     = Some (Inl (Error ''detection failed''))"
proof -
  let ?png = "\<lparr>chunks = [[137, 80], [78, 71, 13 :: 8 word]], finish = End\<rparr>"
  let ?txt = "\<lparr>chunks = [[104, 105 :: 8 word]], finish = End\<rparr>"
  let ?cut = "\<lparr>chunks = [[26, 69, 223, 163 :: 8 word]], finish = End\<rparr>"
  have h1: "streamHead ?png 4100 = Some ([137, 80, 78, 71, 13], ?png)"
    by (simp add: streamHead_short content_def tunnel_data_def)
  have h2: "streamHead ?txt 4100 = Some ([104, 105], ?txt)"
    by (simp add: streamHead_short content_def tunnel_data_def)
  have h3: "streamHead ?cut 4100 = Some ([26, 69, 223, 163], ?cut)"
    by (simp add: streamHead_short content_def tunnel_data_def)
  show ?thesis
    using resolveMimeType_order [OF h1, of example_libs "''a.txt''" None]
          resolveMimeType_order [OF h2, of example_libs "''a.txt''" None]
          resolveMimeType_order [OF h2, of example_libs "''a.bin''" "Some ''application/octet-stream''"]
          resolveMimeType_order [OF h2, of example_libs "''a.bin''" None]
          resolveMimeType_order [OF h3, of example_libs "''a.bin''" "Some ''application/octet-stream''"]
    by (simp add: example_libs_def ext_of_def)
qed

text \<open>
  The claim as it stands fails where the detection rejects: the head is read, no
  signature type is found, the lookup by the extension of \<^verbatim>\<open>clip.txt\<close> gives
  \<^verbatim>\<open>text/plain\<close>, and \<^verbatim>\<open>resolveMimeType\<close> returns neither that type nor a fallback, but
  rejects.
\<close>

theorem resolveMimeType_rejects_counterexample:
  "streamHead \<lparr>chunks = [[26, 69, 223, 163]], finish = End\<rparr> 4100
     = Some ([26, 69, 223, 163], \<lparr>chunks = [[26, 69, 223, 163]], finish = End\<rparr>)
   \<and> fileTypeFromBuffer example_libs [26, 69, 223, 163] = Inl (Error ''detection failed'')
   \<and> mimeTimeForExt example_libs (parse_ext example_libs ''clip.txt'') = Some ''text/plain''
   \<and> resolveMimeType example_libs ''clip.txt''
         \<lparr>chunks = [[26, 69, 223, 163]], finish = End\<rparr> (Some ''video/webm'')
       = Some (Inl (Error ''detection failed''))"
  by (simp add: resolveMimeType_def streamHead_short content_def tunnel_data_def
        example_libs_def ext_of_def)

section \<open>Properties of the S3 adapter\<close>

lemmas example_defs = example_storage_def example_prefixer_def example_head_def example_get_def
  example_acl_def example_list_def example_libs_def

subsection \<open>Deleting a directory: the batches\<close>

text \<open>
  A bucket is flushed when it holds more than 1000 keys, that is with 1001 of them; the
  last bucket is flushed if it is not empty. So, when the listing ends without an error,
  the batches together are the listed keys in their order, and a batch has between 1
  and 1001 keys.
\<close>

lemma fill_buckets_full:
  "length bucket + length xs = 1001 \<Longrightarrow> xs \<noteq> [] \<Longrightarrow>
   fill_buckets bucket promises xs = ([], promises @ [bucket @ map item_Key xs])"
proof (induction xs arbitrary: bucket)
  case Nil
  then show ?case by simp
next
  case (Cons x xs)
  show ?case
  proof (cases "xs = []")
    case True
    with Cons.prems show ?thesis by (simp add: Let_def)
  next
    case False
    then have "1 \<le> length xs"
      by (cases xs) simp_all
    with Cons.prems have small: "\<not> length (bucket @ [item_Key x]) > 1000"
      by simp
    have "length (bucket @ [item_Key x]) + length xs = 1001"
      using Cons.prems by simp
    from Cons.IH [OF this False]
    have "fill_buckets (bucket @ [item_Key x]) promises xs
            = ([], promises @ [bucket @ map item_Key (x # xs)])"
      by simp
    moreover have "fill_buckets bucket promises (x # xs)
            = fill_buckets (bucket @ [item_Key x]) promises xs"
      using small by (simp add: Let_def)
    ultimately show ?thesis by simp
  qed
qed

lemma fill_buckets_keys:
  "fill_buckets bucket promises xs = (bucket', promises') \<Longrightarrow>
   concat promises' @ bucket' = concat promises @ bucket @ map item_Key xs"
proof (induction xs arbitrary: bucket promises)
  case Nil
  then show ?case by simp
next
  case (Cons x xs)
  show ?case
  proof (cases "length (bucket @ [item_Key x]) > 1000")
    case True
    with Cons.prems have "fill_buckets [] (promises @ [bucket @ [item_Key x]]) xs = (bucket', promises')"
      by (simp add: Let_def)
    from Cons.IH [OF this] show ?thesis by simp
  next
    case False
    with Cons.prems have "fill_buckets (bucket @ [item_Key x]) promises xs = (bucket', promises')"
      by (simp add: Let_def)
    from Cons.IH [OF this] show ?thesis by simp
  qed
qed

lemma fill_buckets_sizes:
  "fill_buckets bucket promises xs = (bucket', promises') \<Longrightarrow> length bucket \<le> 1000 \<Longrightarrow>
   length bucket' \<le> 1000
   \<and> (\<exists>new. promises' = promises @ new \<and> (\<forall>b \<in> set new. length b = 1001))"
proof (induction xs arbitrary: bucket promises)
  case Nil
  then show ?case by simp
next
  case (Cons x xs)
  show ?case
  proof (cases "length (bucket @ [item_Key x]) > 1000")
    case True
    with Cons.prems have len: "length (bucket @ [item_Key x]) = 1001" by simp
    from True Cons.prems
    have "fill_buckets [] (promises @ [bucket @ [item_Key x]]) xs = (bucket', promises')"
      by (simp add: Let_def)
    from Cons.IH [OF this] obtain new where
      "length bucket' \<le> 1000" "promises' = (promises @ [bucket @ [item_Key x]]) @ new"
      "\<forall>b \<in> set new. length b = 1001"
      by auto
    with len show ?thesis
      by (intro conjI exI [of _ "(bucket @ [item_Key x]) # new"]) simp_all
  next
    case False
    with Cons.prems have "fill_buckets (bucket @ [item_Key x]) promises xs = (bucket', promises')"
      by (simp add: Let_def)
    from Cons.IH [OF this] False show ?thesis by simp
  qed
qed

lemma deleteDirectory_batches:
  assumes "listObjects fuel s path
             \<lparr>deep = True, includePrefixes = False, includeSelf = True, maxKeys = None\<rparr>
             = Some (itemsToDelete, None)"
  shows "\<exists>batches r. deleteDirectory fuel s path = Some (batches, r)
           \<and> concat batches = map item_Key itemsToDelete
           \<and> (\<forall>b \<in> set batches. 0 < length b \<and> length b \<le> 1001)"
proof -
  obtain bucket promises where fill: "fill_buckets [] [] itemsToDelete = (bucket, promises)"
    by (cases "fill_buckets [] [] itemsToDelete")
  from fill_buckets_keys [OF fill]
  have keys: "concat promises @ bucket = map item_Key itemsToDelete" by simp
  from fill_buckets_sizes [OF fill]
  have "length bucket \<le> 1000" and full: "\<forall>b \<in> set promises. length b = 1001" by auto
  then have sizes: "length bucket \<le> 1001"
    "\<forall>b \<in> set promises. 0 < length b \<and> length b \<le> 1001" by auto
  show ?thesis
  proof (cases "bucket = []")
    case True
    with assms fill keys sizes show ?thesis
      by (simp add: deleteDirectory_def)
  next
    case False
    with assms fill keys sizes show ?thesis
      by (auto simp: deleteDirectory_def)
  qed
qed

lemma big_items:
  "page_items \<lparr>deep = True, includePrefixes = False, includeSelf = True, maxKeys = None\<rparr>
     pre \<lparr>NextContinuationToken = t, IsTruncated = c, CommonPrefixes = None,
          Contents = Some (map big_object ns)\<rparr>
   = map (object_item \<circ> big_object) ns"
  by (simp add: page_items_def big_object_def filter_map o_def)

lemma big_item:
  "page_items \<lparr>deep = True, includePrefixes = False, includeSelf = True, maxKeys = None\<rparr>
     pre \<lparr>NextContinuationToken = t, IsTruncated = c, CommonPrefixes = None,
          Contents = Some [big_object n]\<rparr>
   = [object_item (big_object n)]"
  using big_items [of pre t c "[n]"] by simp

text \<open>
  C1: every delete request of \<^verbatim>\<open>deleteDirectory\<close> should hold at most 1000 keys, and every
  listed key should be in some request. The second half holds (\<open>deleteDirectory_batches\<close>);
  the first does not. The directory \<^verbatim>\<open>big\<close> of the example holds 1001 objects, which the
  backend lists in a page of 1000 and a page of 1, and the adapter sends their keys in
  one request of 1001 keys: the test \<^verbatim>\<open>bucket.length > 1000\<close> lets the bucket grow to 1001
  before it is flushed.
\<close>

theorem deleteDirectory_batch_of_1001:
  "deleteDirectory 2 example_storage ''big''
     = Some ([map (Key \<circ> big_object) [0..<1001]], Inr ())
   \<and> length (map (Key \<circ> big_object) [0..<1001]) = 1001"
proof -
  let ?opts = "\<lparr>deep = True, includePrefixes = False, includeSelf = True, maxKeys = None\<rparr>"
  let ?items = "map (object_item \<circ> big_object) [0..<1001]"
  have two: "2 = Suc (Suc 0)" by simp
  have pages: "[0..<1001] = [0..<1000] @ [1000..<1001]"
    using upt_add_eq_append [of 0 1000 1] by simp
  have "listObjects 2 example_storage ''big'' ?opts
          = Some (map (object_item \<circ> big_object) [0..<1000]
                  @ [object_item (big_object 1000)], None)"
    unfolding two
    by (simp add: listObjects_def keep_listing_def example_defs big_items big_item del: upt_Suc)
  then have listing: "listObjects 2 example_storage ''big'' ?opts = Some (?items, None)"
    by (simp add: pages del: upt_Suc)
  have "fill_buckets [] [] ?items = ([], [] @ [[] @ map item_Key ?items])"
    by (rule fill_buckets_full) simp_all
  moreover have "map item_Key ?items = map (Key \<circ> big_object) [0..<1001]"
    by (simp add: item_Key_def o_def)
  ultimately have fill: "fill_buckets [] [] ?items = ([], [map (Key \<circ> big_object) [0..<1001]])"
    by simp
  have sent: "map (flush example_storage) [map (Key \<circ> big_object) [0..<1001]] = [Inr ()]"
    by (simp add: flush_def example_storage_def del: upt_Suc)
  show ?thesis
    using listing fill sent by (simp add: deleteDirectory_def del: upt_Suc)
qed

subsection \<open>Checksum algorithms\<close>










subsection \<open>Visibility\<close>

text \<open>
  C5: \<^verbatim>\<open>visibilityToAcl\<close> maps PUBLIC to \<^verbatim>\<open>public-read\<close> and PRIVATE to \<^verbatim>\<open>private\<close>, and
  throws for every other value; when the ACL request succeeds, \<^verbatim>\<open>visibility\<close> is PUBLIC
  exactly when the grants of the object hold a grant of READ to the group of all users,
  and PRIVATE otherwise.
\<close>

theorem visibility_mapping:
  "visibilityToAcl Visibility_PUBLIC = Inr ''public-read''
   \<and> visibilityToAcl Visibility_PRIVATE = Inr ''private''
   \<and> (\<forall>v. v \<noteq> Visibility_PUBLIC \<and> v \<noteq> Visibility_PRIVATE \<longrightarrow>
          visibilityToAcl v = Inl (Error (''Unrecognized visibility provided; '' @ v)))
   \<and> (\<forall>response.
          send_GetObjectAcl (client s)
            (GetObjectAclCommand (bucketName (options s)) (prefixFilePath (prefixer s) path))
            = Inr response \<longrightarrow>
          visibility s path =
            Inr (if \<exists>gs g ge. Grants response = Some gs \<and> g \<in> set gs \<and> Grantee g = Some ge
                       \<and> URI ge = Some ''http://acs.amazonaws.com/groups/global/AllUsers''
                       \<and> Permission g = Some ''READ''
                 then Visibility_PUBLIC else Visibility_PRIVATE))
   \<and> Visibility_PUBLIC \<noteq> Visibility_PRIVATE"
proof -
  have acl: "visibilityToAcl Visibility_PUBLIC = Inr ''public-read''
     \<and> visibilityToAcl Visibility_PRIVATE = Inr ''private''
     \<and> Visibility_PUBLIC \<noteq> Visibility_PRIVATE"
    by (simp add: visibilityToAcl_def Visibility_PUBLIC_def Visibility_PRIVATE_def)
  have other: "\<forall>v. v \<noteq> Visibility_PUBLIC \<and> v \<noteq> Visibility_PRIVATE \<longrightarrow>
          visibilityToAcl v = Inl (Error (''Unrecognized visibility provided; '' @ v))"
    by (simp add: visibilityToAcl_def)
  have ex: "list_ex (\<lambda>grant. (case Grantee grant of None \<Rightarrow> None | Some g \<Rightarrow> URI g) = Some u
                         \<and> Permission grant = Some p) gs
           \<longleftrightarrow> (\<exists>g ge. g \<in> set gs \<and> Grantee g = Some ge \<and> URI ge = Some u \<and> Permission g = Some p)"
    for gs :: "Grant list" and u p
    by (auto simp: list_ex_iff split: option.splits)
  have q: "visibility s path =
            Inr (if \<exists>gs g ge. Grants response = Some gs \<and> g \<in> set gs \<and> Grantee g = Some ge
                       \<and> URI ge = Some ''http://acs.amazonaws.com/groups/global/AllUsers''
                       \<and> Permission g = Some ''READ''
                 then Visibility_PUBLIC else Visibility_PRIVATE)"
    if "send_GetObjectAcl (client s)
            (GetObjectAclCommand (bucketName (options s)) (prefixFilePath (prefixer s) path))
            = Inr response" for response
  proof (cases "Grants response")
    case None
    with that show ?thesis by (simp add: visibility_def)
  next
    case (Some gs)
    with that show ?thesis by (simp add: visibility_def ex)
  qed
  from acl other q show ?thesis by blast
qed

theorem visibility_mapping_witness:
  "visibility example_storage ''public.txt'' = Inr Visibility_PUBLIC
   \<and> visibility example_storage ''private.txt'' = Inr Visibility_PRIVATE
   \<and> visibilityToAcl ''protected'' = Inl (Error ''Unrecognized visibility provided; protected'')"
proof -
  let ?acl = "\<lambda>p. send_GetObjectAcl (client example_storage)
                 (GetObjectAclCommand (bucketName (options example_storage))
                    (prefixFilePath (prefixer example_storage) p))"
  let ?owner = "\<lparr>Grantee = Some \<lparr>URI = None\<rparr>, Permission = Some ''FULL_CONTROL''\<rparr>"
  let ?all = "\<lparr>Grantee = Some \<lparr>URI = Some ''http://acs.amazonaws.com/groups/global/AllUsers''\<rparr>,
              Permission = Some ''READ''\<rparr>"
  have pub: "?acl ''public.txt'' = Inr \<lparr>Grants = Some [?owner, ?all]\<rparr>"
    and priv: "?acl ''private.txt'' = Inr \<lparr>Grants = Some [?owner]\<rparr>"
    by (simp_all add: example_defs)
  have granted: "\<exists>gs g ge. Grants \<lparr>Grants = Some [?owner, ?all]\<rparr> = Some gs \<and> g \<in> set gs
                   \<and> Grantee g = Some ge
                   \<and> URI ge = Some ''http://acs.amazonaws.com/groups/global/AllUsers''
                   \<and> Permission g = Some ''READ''"
    by (intro exI [of _ "[?owner, ?all]"] exI [of _ ?all]
          exI [of _ "\<lparr>URI = Some ''http://acs.amazonaws.com/groups/global/AllUsers''\<rparr>"]) simp
  have not_granted: "\<not> (\<exists>gs g ge. Grants \<lparr>Grants = Some [?owner]\<rparr> = Some gs \<and> g \<in> set gs
                   \<and> Grantee g = Some ge
                   \<and> URI ge = Some ''http://acs.amazonaws.com/groups/global/AllUsers''
                   \<and> Permission g = Some ''READ'')"
    by auto
  have other: "''protected'' \<noteq> Visibility_PUBLIC \<and> ''protected'' \<noteq> Visibility_PRIVATE"
    by (simp add: Visibility_PUBLIC_def Visibility_PRIVATE_def)
  from visibility_mapping [of example_storage "''public.txt''"] pub
  have "visibility example_storage ''public.txt'' =
          Inr (if \<exists>gs g ge. Grants \<lparr>Grants = Some [?owner, ?all]\<rparr> = Some gs \<and> g \<in> set gs
                   \<and> Grantee g = Some ge
                   \<and> URI ge = Some ''http://acs.amazonaws.com/groups/global/AllUsers''
                   \<and> Permission g = Some ''READ''
               then Visibility_PUBLIC else Visibility_PRIVATE)"
    by blast
  with granted have 1: "visibility example_storage ''public.txt'' = Inr Visibility_PUBLIC"
    by (simp only: if_True)
  from visibility_mapping [of example_storage "''private.txt''"] priv
  have "visibility example_storage ''private.txt'' =
          Inr (if \<exists>gs g ge. Grants \<lparr>Grants = Some [?owner]\<rparr> = Some gs \<and> g \<in> set gs
                   \<and> Grantee g = Some ge
                   \<and> URI ge = Some ''http://acs.amazonaws.com/groups/global/AllUsers''
                   \<and> Permission g = Some ''READ''
               then Visibility_PUBLIC else Visibility_PRIVATE)"
    by blast
  with not_granted have 2: "visibility example_storage ''private.txt'' = Inr Visibility_PRIVATE"
    by (simp only: if_False)
  from visibility_mapping [of example_storage "''public.txt''"] other
  have 3: "visibilityToAcl ''protected'' = Inl (Error (''Unrecognized visibility provided; '' @ ''protected''))"
    by blast
  from 1 2 3 show ?thesis by simp
qed

subsection \<open>Existence checks\<close>

lemma listObjects_loop_error_Thrown:
  "listObjects_loop fuel s prefix opts n c t = Some (xs, Some x) \<Longrightarrow> \<exists>e. x = Thrown e"
proof (induction fuel arbitrary: n c t xs)
  case 0
  then show ?case by (simp split: if_splits)
next
  case (Suc fuel)
  then show ?case
    by (auto simp: Let_def split: if_splits sum.splits option.splits)
qed

lemma listObjects_loop_first_listed:
  assumes "maxKeys opts = Some 1"
  shows "first_listed fuel s pre opts c t =
     (case listObjects_loop fuel s pre opts 0 c t of
        None \<Rightarrow> None
      | Some (item # rest, err) \<Rightarrow> Some (Inr (Some item))
      | Some ([], Some e) \<Rightarrow> Some (Inl e)
      | Some ([], None) \<Rightarrow> Some (Inr None))"
proof (induction fuel arbitrary: c t)
  case 0
  then show ?case by simp
next
  case (Suc fuel)
  show ?case
  proof (cases "keep_listing opts 0 c")
    case False
    then show ?thesis by simp
  next
    case True
    show ?thesis
    proof (cases "send_ListObjectsV2 (client s)
                (ListObjectsV2Command (bucketName (options s)) pre
                   (if deep opts then None else Some ''/'') t (maxKeys opts))")
      case (Inl e)
      with True show ?thesis by simp
    next
      case (Inr response)
      show ?thesis
      proof (cases "page_items opts pre response")
        case Nil
        with True Inr Suc.IH show ?thesis
          by (simp split: option.splits list.splits)
      next
        case (Cons item rest)
        have stop: "\<not> keep_listing opts (length (item # rest)) b" for b
          using assms by (simp add: keep_listing_def)
        have "listObjects_loop fuel s pre opts (length (item # rest)) b t' = Some ([], None)" for b t'
          using stop by (cases fuel) simp_all
        with True Inr Cons show ?thesis by simp
      qed
    qed
  qed
qed

lemma directoryExists_first_listed:
  "directoryExists fuel s path =
     (case first_listed fuel s (prefixDirectoryPath (prefixer s) path)
             \<lparr>deep = True, includePrefixes = True, includeSelf = True, maxKeys = Some 1\<rparr>
             True None of
        None \<Rightarrow> None
      | Some (Inl e) \<Rightarrow> Some (Inl e)
      | Some (Inr (Some item)) \<Rightarrow> Some (Inr True)
      | Some (Inr None) \<Rightarrow> Some (Inr False))"
  by (simp add: directoryExists_def listObjects_def listObjects_loop_first_listed
        split: option.splits list.splits)

text \<open>
  C6: \<^verbatim>\<open>fileExists\<close> is false when the head request fails with a service error of
  status 404, and rethrows every other error of the client as it is.
  \<^verbatim>\<open>directoryExists\<close> is false when the listing is empty: when the first response has
  no entry and reports no further page (then one request is enough), and whenever the
  listing ends without an item and without an error. An error that ends the listing
  before its first item, at the first request or at a later one, is rethrown as it is,
  and every error of \<^verbatim>\<open>directoryExists\<close> is an error that the client threw into the
  listing.
\<close>

theorem exists_not_found_is_false:
  "(send_HeadObject (client s)
       (HeadObjectCommand (bucketName (options s)) (prefixFilePath (prefixer s) path) None)
       = Inl (S3ServiceException (Some 404)) \<longrightarrow>
     fileExists s path = Inr False)
   \<and> (\<forall>e. send_HeadObject (client s)
            (HeadObjectCommand (bucketName (options s)) (prefixFilePath (prefixer s) path) None)
            = Inl e \<and> e \<noteq> S3ServiceException (Some 404) \<longrightarrow>
          fileExists s path = Inl (Thrown e))
   \<and> (\<forall>r. send_ListObjectsV2 (client s)
            (ListObjectsV2Command (bucketName (options s)) (prefixDirectoryPath (prefixer s) path)
               None None (Some 1)) = Inr r
          \<and> CommonPrefixes r \<in> {None, Some []} \<and> Contents r \<in> {None, Some []}
          \<and> IsTruncated r \<noteq> Some True \<longrightarrow>
          directoryExists (Suc fuel) s path = Some (Inr False))
   \<and> (\<forall>e. send_ListObjectsV2 (client s)
            (ListObjectsV2Command (bucketName (options s)) (prefixDirectoryPath (prefixer s) path)
               None None (Some 1)) = Inl e \<longrightarrow>
          directoryExists (Suc fuel) s path = Some (Inl (Thrown e)))
   \<and> (listObjects fuel s path
          \<lparr>deep = True, includePrefixes = True, includeSelf = True, maxKeys = Some 1\<rparr>
          = Some ([], None) \<longrightarrow>
        directoryExists fuel s path = Some (Inr False))
   \<and> (\<forall>e. listObjects fuel s path
            \<lparr>deep = True, includePrefixes = True, includeSelf = True, maxKeys = Some 1\<rparr>
            = Some ([], Some e) \<longrightarrow>
          directoryExists fuel s path = Some (Inl e))
   \<and> (\<forall>e. first_listed fuel s (prefixDirectoryPath (prefixer s) path)
            \<lparr>deep = True, includePrefixes = True, includeSelf = True, maxKeys = Some 1\<rparr>
            True None = Some (Inl e) \<longrightarrow>
          directoryExists fuel s path = Some (Inl e))
   \<and> (\<forall>x. directoryExists fuel s path = Some (Inl x) \<longrightarrow>
          (\<exists>e. x = Thrown e
              \<and> listObjects fuel s path
                   \<lparr>deep = True, includePrefixes = True, includeSelf = True, maxKeys = Some 1\<rparr>
                   = Some ([], Some (Thrown e))))"
proof -
  let ?opts = "\<lparr>deep = True, includePrefixes = True, includeSelf = True, maxKeys = Some 1\<rparr>"
  have f1: "send_HeadObject (client s)
       (HeadObjectCommand (bucketName (options s)) (prefixFilePath (prefixer s) path) None)
       = Inl (S3ServiceException (Some 404)) \<longrightarrow> fileExists s path = Inr False"
    by (simp add: fileExists_def)
  have f2: "\<forall>e. send_HeadObject (client s)
            (HeadObjectCommand (bucketName (options s)) (prefixFilePath (prefixer s) path) None)
            = Inl e \<and> e \<noteq> S3ServiceException (Some 404) \<longrightarrow>
          fileExists s path = Inl (Thrown e)"
    by (auto simp: fileExists_def split: S3Error.splits)
  have d1: "\<forall>r. send_ListObjectsV2 (client s)
            (ListObjectsV2Command (bucketName (options s)) (prefixDirectoryPath (prefixer s) path)
               None None (Some 1)) = Inr r
          \<and> CommonPrefixes r \<in> {None, Some []} \<and> Contents r \<in> {None, Some []}
          \<and> IsTruncated r \<noteq> Some True \<longrightarrow>
          directoryExists (Suc fuel) s path = Some (Inr False)"
  proof (intro allI impI, elim conjE)
    fix r
    assume r: "send_ListObjectsV2 (client s)
            (ListObjectsV2Command (bucketName (options s)) (prefixDirectoryPath (prefixer s) path)
               None None (Some 1)) = Inr r"
      and cp: "CommonPrefixes r \<in> {None, Some []}" and ct: "Contents r \<in> {None, Some []}"
      and tr: "IsTruncated r \<noteq> Some True"
    have items: "page_items ?opts (prefixDirectoryPath (prefixer s) path) r = []"
      using cp ct by (auto simp: page_items_def)
    have stop: "(case IsTruncated r of None \<Rightarrow> False | Some b \<Rightarrow> b) = False"
      using tr by (cases "IsTruncated r") auto
    have "listObjects (Suc fuel) s path ?opts = Some ([], None)"
      using r items stop by (cases fuel) (simp_all add: listObjects_def keep_listing_def)
    then show "directoryExists (Suc fuel) s path = Some (Inr False)"
      by (simp add: directoryExists_def)
  qed
  have d2: "\<forall>e. send_ListObjectsV2 (client s)
            (ListObjectsV2Command (bucketName (options s)) (prefixDirectoryPath (prefixer s) path)
               None None (Some 1)) = Inl e \<longrightarrow>
          directoryExists (Suc fuel) s path = Some (Inl (Thrown e))"
    by (simp add: directoryExists_def listObjects_def keep_listing_def)
  have d3: "listObjects fuel s path ?opts = Some ([], None) \<longrightarrow>
        directoryExists fuel s path = Some (Inr False)"
    by (simp add: directoryExists_def)
  have d5: "\<forall>e. listObjects fuel s path ?opts = Some ([], Some e) \<longrightarrow>
          directoryExists fuel s path = Some (Inl e)"
    by (simp add: directoryExists_def)
  have d6: "\<forall>e. first_listed fuel s (prefixDirectoryPath (prefixer s) path) ?opts True None
               = Some (Inl e) \<longrightarrow>
          directoryExists fuel s path = Some (Inl e)"
    by (simp add: directoryExists_first_listed)
  have d4: "\<forall>x. directoryExists fuel s path = Some (Inl x) \<longrightarrow>
          (\<exists>e. x = Thrown e \<and> listObjects fuel s path ?opts = Some ([], Some (Thrown e)))"
  proof (intro allI impI)
    fix x
    assume "directoryExists fuel s path = Some (Inl x)"
    then have l: "listObjects fuel s path ?opts = Some ([], Some x)"
      by (auto simp: directoryExists_def split: option.splits list.splits)
    then obtain e where "x = Thrown e"
      unfolding listObjects_def Let_def by (blast dest: listObjects_loop_error_Thrown)
    with l show "\<exists>e. x = Thrown e \<and> listObjects fuel s path ?opts = Some ([], Some (Thrown e))"
      by simp
  qed
  from f1 f2 d1 d2 d3 d5 d6 d4 show ?thesis by blast
qed

theorem exists_not_found_is_false_witness:
  "fileExists example_storage ''missing.txt'' = Inr False
   \<and> fileExists example_storage ''secret.txt'' = Inl (Thrown (S3ServiceException (Some 403)))
   \<and> directoryExists 1 example_storage ''nothing'' = Some (Inr False)
   \<and> directoryExists 1 example_storage ''locked'' = Some (Inl (Thrown (S3ServiceException (Some 403))))
   \<and> directoryExists 2 example_storage ''flaky'' = Some (Inl (Thrown (S3ServiceException (Some 500))))"
proof -
  have two: "2 = Suc (Suc 0)" by simp
  have flaky: "listObjects 2 example_storage ''flaky''
                 \<lparr>deep = True, includePrefixes = True, includeSelf = True, maxKeys = Some 1\<rparr>
               = Some ([], Some (Thrown (S3ServiceException (Some 500))))"
    unfolding two
    by (simp add: listObjects_def keep_listing_def page_items_def example_defs)
  have later: "directoryExists 2 example_storage ''flaky''
                 = Some (Inl (Thrown (S3ServiceException (Some 500))))"
    by (rule exists_not_found_is_false [of example_storage "''flaky''" 2,
          THEN conjunct2, THEN conjunct2, THEN conjunct2, THEN conjunct2, THEN conjunct2,
          THEN conjunct1, THEN spec, THEN mp, OF flaky])
  have first: "fileExists example_storage ''missing.txt'' = Inr False
     \<and> fileExists example_storage ''secret.txt'' = Inl (Thrown (S3ServiceException (Some 403)))
     \<and> directoryExists 1 example_storage ''nothing'' = Some (Inr False)
     \<and> directoryExists 1 example_storage ''locked''
         = Some (Inl (Thrown (S3ServiceException (Some 403))))"
    using exists_not_found_is_false [of example_storage "''missing.txt''" 0]
          exists_not_found_is_false [of example_storage "''secret.txt''" 0]
          exists_not_found_is_false [of example_storage "''nothing''" 0]
          exists_not_found_is_false [of example_storage "''locked''" 0]
    by (simp add: example_defs)
  from first later show ?thesis by simp
qed

subsection \<open>The MIME type of an object\<close>

text \<open>
  C7, amended: when the head request succeeds, \<^verbatim>\<open>mimeType\<close> returns the content type of
  the response if there is one (a non-empty string). If there is none, it fails when
  \<^verbatim>\<open>disallowFallback\<close> is set; otherwise, with \<^verbatim>\<open>fallbackMethod\<close> absent or \<^verbatim>\<open>'path'\<close>, it
  returns the type looked up from the path and fails if there is none; with another
  method (\<^verbatim>\<open>'stream'\<close>), it reads the object and runs the stream resolver on it. When
  the resolver resolves, \<^verbatim>\<open>mimeType\<close> returns the type it found, or fails if it found
  none, and has closed the stream the resolver returned. When reading the object fails
  or the resolver rejects, \<^verbatim>\<open>mimeType\<close> rejects with that error and has closed no stream;
  when the resolver never settles, neither does \<^verbatim>\<open>mimeType\<close>.
\<close>

theorem mimeType_resolution:
  assumes "send_HeadObject (client s)
             (HeadObjectCommand (bucketName (options s)) (prefixFilePath (prefixer s) path) None)
             = Inr response"
  shows "(\<forall>m. ContentType response = Some m \<and> m \<noteq> [] \<longrightarrow>
            mimeType L s path opts = (Some (Inr m), []))
       \<and> (ContentType response \<in> {None, Some []} \<and> disallowFallback opts = Some True \<longrightarrow>
            mimeType L s path opts
              = (Some (Inl (Error ''Mime-type not available via HeadObject'')), []))
       \<and> (ContentType response \<in> {None, Some []} \<and> disallowFallback opts \<noteq> Some True
            \<and> fallbackMethod opts \<in> {None, Some ''path''} \<longrightarrow>
            mimeType L s path opts
              = (case mimeTimeForExt L path of
                   Some m \<Rightarrow> (Some (Inr m), [])
                 | None \<Rightarrow> (Some (Inl (Error ''Unable to resolve mime-type'')), [])))
       \<and> (\<forall>method body found stream.
            ContentType response \<in> {None, Some []} \<and> disallowFallback opts \<noteq> Some True
            \<and> fallbackMethod opts = Some method \<and> method \<noteq> ''path''
            \<and> read s path = Inr body
            \<and> resolveMimeType L path body None = Some (Inr (found, stream)) \<longrightarrow>
            mimeType L s path opts
              = (case found of
                   Some m \<Rightarrow> (Some (Inr m), [stream])
                 | None \<Rightarrow> (Some (Inl (Error ''Unable to resolve mime-type'')), [stream])))
       \<and> (\<forall>method body e.
            ContentType response \<in> {None, Some []} \<and> disallowFallback opts \<noteq> Some True
            \<and> fallbackMethod opts = Some method \<and> method \<noteq> ''path''
            \<and> read s path = Inr body
            \<and> resolveMimeType L path body None = Some (Inl e) \<longrightarrow>
            mimeType L s path opts = (Some (Inl e), []))
       \<and> (\<forall>method e.
            ContentType response \<in> {None, Some []} \<and> disallowFallback opts \<noteq> Some True
            \<and> fallbackMethod opts = Some method \<and> method \<noteq> ''path''
            \<and> read s path = Inl e \<longrightarrow>
            mimeType L s path opts = (Some (Inl e), []))
       \<and> (\<forall>method body.
            ContentType response \<in> {None, Some []} \<and> disallowFallback opts \<noteq> Some True
            \<and> fallbackMethod opts = Some method \<and> method \<noteq> ''path''
            \<and> read s path = Inr body
            \<and> resolveMimeType L path body None = None \<longrightarrow>
            mimeType L s path opts = (None, []))"
proof -
  have st: "stat s path = Inr \<lparr>type = ''file'', isFile = True, isDirectory = False,
               entryPath = path,
               entrySize = Some (case ContentLength response of None \<Rightarrow> 0 | Some n \<Rightarrow> n),
               lastModifiedMs = map_option getMilliseconds (HeadLastModified response),
               entryMimeType = ContentType response\<rparr>"
    using assms by (simp add: stat_def)
  have 1: "\<forall>m. ContentType response = Some m \<and> m \<noteq> [] \<longrightarrow>
            mimeType L s path opts = (Some (Inr m), [])"
    by (simp add: mimeType_def st)
  have 2: "ContentType response \<in> {None, Some []} \<and> disallowFallback opts = Some True \<longrightarrow>
            mimeType L s path opts
              = (Some (Inl (Error ''Mime-type not available via HeadObject'')), [])"
    by (auto simp: mimeType_def st)
  have 3: "ContentType response \<in> {None, Some []} \<and> disallowFallback opts \<noteq> Some True
            \<and> fallbackMethod opts \<in> {None, Some ''path''} \<longrightarrow>
            mimeType L s path opts
              = (case mimeTimeForExt L path of
                   Some m \<Rightarrow> (Some (Inr m), [])
                 | None \<Rightarrow> (Some (Inl (Error ''Unable to resolve mime-type'')), []))"
    by (auto simp: mimeType_def st split: option.splits)
  have 4: "\<forall>method body found stream.
            ContentType response \<in> {None, Some []} \<and> disallowFallback opts \<noteq> Some True
            \<and> fallbackMethod opts = Some method \<and> method \<noteq> ''path''
            \<and> read s path = Inr body
            \<and> resolveMimeType L path body None = Some (Inr (found, stream)) \<longrightarrow>
            mimeType L s path opts
              = (case found of
                   Some m \<Rightarrow> (Some (Inr m), [stream])
                 | None \<Rightarrow> (Some (Inl (Error ''Unable to resolve mime-type'')), [stream]))"
    by (auto simp: mimeType_def st lookupMimeTypeFromStream_def split: option.splits)
  have 5: "\<forall>method body e.
            ContentType response \<in> {None, Some []} \<and> disallowFallback opts \<noteq> Some True
            \<and> fallbackMethod opts = Some method \<and> method \<noteq> ''path''
            \<and> read s path = Inr body
            \<and> resolveMimeType L path body None = Some (Inl e) \<longrightarrow>
            mimeType L s path opts = (Some (Inl e), [])"
    by (auto simp: mimeType_def st lookupMimeTypeFromStream_def)
  have 6: "\<forall>method e.
            ContentType response \<in> {None, Some []} \<and> disallowFallback opts \<noteq> Some True
            \<and> fallbackMethod opts = Some method \<and> method \<noteq> ''path''
            \<and> read s path = Inl e \<longrightarrow>
            mimeType L s path opts = (Some (Inl e), [])"
    by (auto simp: mimeType_def st lookupMimeTypeFromStream_def)
  have 7: "\<forall>method body.
            ContentType response \<in> {None, Some []} \<and> disallowFallback opts \<noteq> Some True
            \<and> fallbackMethod opts = Some method \<and> method \<noteq> ''path''
            \<and> read s path = Inr body
            \<and> resolveMimeType L path body None = None \<longrightarrow>
            mimeType L s path opts = (None, [])"
    by (auto simp: mimeType_def st lookupMimeTypeFromStream_def)
  from 1 2 3 4 5 6 7 show ?thesis by blast
qed

theorem mimeType_resolution_witness:
  "mimeType example_libs example_storage ''path.txt'' \<lparr>disallowFallback = None, fallbackMethod = None\<rparr>
     = (Some (Inr ''text/plain''), [])
   \<and> mimeType example_libs example_storage ''blob'' \<lparr>disallowFallback = Some True, fallbackMethod = None\<rparr>
     = (Some (Inl (Error ''Mime-type not available via HeadObject'')), [])
   \<and> mimeType example_libs example_storage ''image.png'' \<lparr>disallowFallback = None, fallbackMethod = None\<rparr>
     = (Some (Inr ''image/png''), [])
   \<and> mimeType example_libs example_storage ''blob'' \<lparr>disallowFallback = None, fallbackMethod = Some ''path''\<rparr>
     = (Some (Inl (Error ''Unable to resolve mime-type'')), [])
   \<and> mimeType example_libs example_storage ''blob'' \<lparr>disallowFallback = None, fallbackMethod = Some ''stream''\<rparr>
     = (Some (Inr ''image/png''), [\<lparr>chunks = png_bytes, finish = End\<rparr>])
   \<and> mimeType example_libs example_storage ''cut'' \<lparr>disallowFallback = None, fallbackMethod = Some ''stream''\<rparr>
     = (Some (Inl (Error ''detection failed'')), [])"
proof -
  let ?head = "\<lambda>p. send_HeadObject (client example_storage)
             (HeadObjectCommand (bucketName (options example_storage))
                (prefixFilePath (prefixer example_storage) p) None)"
  let ?none = "\<lparr>ContentLength = Some 8, HeadLastModified = None, ContentType = None,
               ETag = None, ChecksumSHA1 = None, ChecksumSHA256 = None,
               ChecksumCRC32 = None, ChecksumCRC32C = None\<rparr>"
  let ?cut = "\<lparr>chunks = [[26, 69, 223, 163 :: 8 word]], finish = End\<rparr>"
  have plain: "?head ''path.txt'' = Inr \<lparr>ContentLength = Some 24, HeadLastModified = Some 1700000000123,
               ContentType = Some ''text/plain'',
               ETag = Some ([CHR 0x22] @ ''5ca2bd4a'' @ [CHR 0x22]),
               ChecksumSHA1 = None, ChecksumSHA256 = None,
               ChecksumCRC32 = None, ChecksumCRC32C = None\<rparr>"
    and blob: "?head ''blob'' = Inr ?none"
    and png: "?head ''image.png'' = Inr ?none"
    and cut: "?head ''cut'' = Inr ?none"
    by (simp_all add: example_defs)
  have body: "read example_storage ''blob'' = Inr \<lparr>chunks = png_bytes, finish = End\<rparr>"
    "read example_storage ''cut'' = Inr ?cut"
    by (simp_all add: read_def example_defs)
  have found: "resolveMimeType example_libs ''blob'' \<lparr>chunks = png_bytes, finish = End\<rparr> None
                 = Some (Inr (Some ''image/png'', \<lparr>chunks = png_bytes, finish = End\<rparr>))"
    by (simp add: resolveMimeType_def streamHead_short content_def tunnel_data_def png_bytes_def
          example_libs_def)
  have failed: "resolveMimeType example_libs ''cut'' ?cut None
                  = Some (Inl (Error ''detection failed''))"
    by (simp add: resolveMimeType_def streamHead_short content_def tunnel_data_def
          example_libs_def)
  have ext: "mimeTimeForExt example_libs ''image.png'' = Some ''image/png''"
    "mimeTimeForExt example_libs ''blob'' = None"
    by (simp_all add: example_libs_def ext_of_def)
  show ?thesis
    using mimeType_resolution [OF plain, of example_libs "\<lparr>disallowFallback = None, fallbackMethod = None\<rparr>"]
          mimeType_resolution [OF blob, of example_libs "\<lparr>disallowFallback = Some True, fallbackMethod = None\<rparr>"]
          mimeType_resolution [OF png, of example_libs "\<lparr>disallowFallback = None, fallbackMethod = None\<rparr>"]
          mimeType_resolution [OF blob, of example_libs "\<lparr>disallowFallback = None, fallbackMethod = Some ''path''\<rparr>"]
          mimeType_resolution [OF blob, of example_libs "\<lparr>disallowFallback = None, fallbackMethod = Some ''stream''\<rparr>"]
          mimeType_resolution [OF cut, of example_libs "\<lparr>disallowFallback = None, fallbackMethod = Some ''stream''\<rparr>"]
          body found failed ext
    by simp
qed

text \<open>
  The claim as it stands fails where the resolver rejects: the object \<^verbatim>\<open>cut\<close> has no
  content type, \<^verbatim>\<open>read\<close> opens its stream, the detection rejects on its head, and
  \<^verbatim>\<open>mimeType\<close> rejects with the error of the detection without having closed a stream.
\<close>

theorem mimeType_stream_not_closed_counterexample:
  "stat example_storage ''cut''
     = Inr \<lparr>type = ''file'', isFile = True, isDirectory = False, entryPath = ''cut'',
            entrySize = Some 8, lastModifiedMs = None, entryMimeType = None\<rparr>
   \<and> read example_storage ''cut'' = Inr \<lparr>chunks = [[26, 69, 223, 163]], finish = End\<rparr>
   \<and> mimeType example_libs example_storage ''cut''
         \<lparr>disallowFallback = None, fallbackMethod = Some ''stream''\<rparr>
       = (Some (Inl (Error ''detection failed'')), [])"
  by (simp add: mimeType_def stat_def read_def lookupMimeTypeFromStream_def resolveMimeType_def
        streamHead_short content_def tunnel_data_def example_defs)

subsection \<open>Listing\<close>

text \<open>
  What \<^verbatim>\<open>listObjects\<close> yields has a key (or prefix), and without \<^verbatim>\<open>includeSelf\<close> never
  the prefix that was asked for; \<^verbatim>\<open>list\<close> yields one entry for each of these items, in
  their order. Which keys and common prefixes a response holds is the backend's
  business.
\<close>

lemma page_items_keys:
  assumes "x \<in> set (page_items opts pre response)"
  shows "(case x of prefix_item item \<Rightarrow> Prefix item | object_item item \<Rightarrow> Key item) \<noteq> None
   \<and> (\<not> includeSelf opts \<longrightarrow>
        (case x of prefix_item item \<Rightarrow> Prefix item | object_item item \<Rightarrow> Key item) \<noteq> Some pre)"
proof -
  define ps where "ps = (if includePrefixes opts
                      then (case CommonPrefixes response of None \<Rightarrow> [] | Some ps \<Rightarrow> ps)
                      else [])"
  define cs where "cs = (case Contents response of None \<Rightarrow> [] | Some cs \<Rightarrow> cs)"
  have "page_items opts pre response
          = map prefix_item
              (filter (\<lambda>item. \<not> ((\<not> includeSelf opts \<and> Prefix item = Some pre)
                                  \<or> Prefix item = None)) ps)
            @ map object_item
              (filter (\<lambda>item. \<not> ((\<not> includeSelf opts \<and> Key item = Some pre)
                                  \<or> Key item = None)) cs)"
    by (simp only: page_items_def Let_def ps_def cs_def)
  with assms show ?thesis by auto
qed

lemma listObjects_loop_keys:
  "listObjects_loop fuel s pre opts n c t = Some (xs, err) \<Longrightarrow> x \<in> set xs \<Longrightarrow>
   (case x of prefix_item item \<Rightarrow> Prefix item | object_item item \<Rightarrow> Key item) \<noteq> None
   \<and> (\<not> includeSelf opts \<longrightarrow>
        (case x of prefix_item item \<Rightarrow> Prefix item | object_item item \<Rightarrow> Key item) \<noteq> Some pre)"
proof (induction fuel arbitrary: n c t xs)
  case 0
  then show ?case by (simp split: if_splits)
next
  case (Suc fuel)
  show ?case
  proof (cases "keep_listing opts n c")
    case False
    with Suc.prems show ?thesis by simp
  next
    case True
    show ?thesis
    proof (cases "send_ListObjectsV2 (client s)
                (ListObjectsV2Command (bucketName (options s)) pre
                   (if deep opts then None else Some ''/'') t (maxKeys opts))")
      case (Inl e)
      with True Suc.prems show ?thesis by simp
    next
      case (Inr response)
      with True Suc.prems obtain rest where
        rest: "listObjects_loop fuel s pre opts (n + length (page_items opts pre response))
                 (case IsTruncated response of None \<Rightarrow> False | Some b \<Rightarrow> b)
                 (NextContinuationToken response) = Some (rest, err)"
        and xs: "xs = page_items opts pre response @ rest"
        by (auto simp: Let_def split: option.splits)
      from Suc.prems(2) xs consider "x \<in> set (page_items opts pre response)" | "x \<in> set rest"
        by auto
      then show ?thesis
      proof cases
        case 1
        then show ?thesis by (rule page_items_keys)
      next
        case 2
        with Suc.IH [OF rest] show ?thesis by simp
      qed
    qed
  qed
qed

lemma list_entries_defined:
  "\<forall>x \<in> set xs. (case x of prefix_item item \<Rightarrow> Prefix item | object_item item \<Rightarrow> Key item) \<noteq> None
   \<Longrightarrow> \<exists>es. list_entries s xs err = (es, err) \<and> map Inr es = map (list_entry s) xs"
proof (induction xs)
  case Nil
  then show ?case by simp
next
  case (Cons x xs)
  then obtain es where es: "list_entries s xs err = (es, err)" "map Inr es = map (list_entry s) xs"
    by auto
  have "\<exists>e. list_entry s x = Inr e"
    using Cons.prems by (cases x) (auto simp: list_entry_def)
  with es show ?case by auto
qed

lemma list_one_entry_per_item:
  assumes "listObjects fuel s path
             \<lparr>deep = d, includePrefixes = True, includeSelf = False, maxKeys = None\<rparr>
             = Some (listing, err)"
  shows "\<exists>es. list fuel s path d = Some (es, err) \<and> map Inr es = map (list_entry s) listing
           \<and> (\<forall>x \<in> set listing.
                 (case x of prefix_item item \<Rightarrow> Prefix item | object_item item \<Rightarrow> Key item)
                   \<noteq> Some (prefixDirectoryPath (prefixer s) path))"
proof -
  let ?key = "\<lambda>x. case x of prefix_item item \<Rightarrow> Prefix item | object_item item \<Rightarrow> Key item"
  have keys: "?key x \<noteq> None \<and> ?key x \<noteq> Some (prefixDirectoryPath (prefixer s) path)"
    if "x \<in> set listing" for x
    using listObjects_loop_keys [OF assms [unfolded listObjects_def Let_def] that] by simp
  then have "\<forall>x \<in> set listing. ?key x \<noteq> None" by blast
  from list_entries_defined [OF this, of s err] obtain es
    where "list_entries s listing err = (es, err)" "map Inr es = map (list_entry s) listing"
    by blast
  with assms keys show ?thesis by (simp add: list_def)
qed

text \<open>
  On an object store the listing loop ends (the fuel needed is bounded by the number of
  stored objects) and yields, in some order, the results of the store that pass the test
  of \<^verbatim>\<open>listObjects\<close>.
\<close>

lemma page_items_mset:
  assumes "includePrefixes opts"
    and "CommonPrefixes response = Some (List.map_filter
            (\<lambda>x. case x of prefix_item p \<Rightarrow> Some p | object_item obj \<Rightarrow> None) part)"
    and "Contents response = Some (List.map_filter
            (\<lambda>x. case x of object_item obj \<Rightarrow> Some obj | prefix_item p \<Rightarrow> None) part)"
  shows "mset (page_items opts pre response) = mset (filter (yielded opts pre) part)"
proof -
  have split: "mset (map prefix_item (filter P (List.map_filter
            (\<lambda>x. case x of prefix_item p \<Rightarrow> Some p | object_item obj \<Rightarrow> None) xs))
          @ map object_item (filter Q (List.map_filter
            (\<lambda>x. case x of object_item obj \<Rightarrow> Some obj | prefix_item p \<Rightarrow> None) xs)))
        = mset (filter (\<lambda>x. case x of prefix_item p \<Rightarrow> P p | object_item obj \<Rightarrow> Q obj) xs)"
    for P Q and xs :: "listed list"
  proof (induction xs)
    case Nil
    then show ?case by (simp add: List.map_filter_simps)
  next
    case (Cons x xs)
    then show ?case by (cases x) (simp_all add: List.map_filter_simps)
  qed
  have pred: "yielded opts pre =
      (\<lambda>x. case x of
         prefix_item p \<Rightarrow> \<not> ((\<not> includeSelf opts \<and> Prefix p = Some pre) \<or> Prefix p = None)
       | object_item obj \<Rightarrow> \<not> ((\<not> includeSelf opts \<and> Key obj = Some pre) \<or> Key obj = None))"
    by (rule ext) (simp add: yielded_def listed_key_def split: listed.splits)
  show ?thesis
    unfolding page_items_def Let_def pred
    using assms by (simp only: split if_True option.case)
qed

lemma listObjects_loop_stopped:
  "listObjects_loop fuel s pre opts n False t = Some ([], None)"
  by (cases fuel) (simp_all add: keep_listing_def)

lemma listObjects_loop_over_store:
  assumes backend: "send_ListObjectsV2 (client s) = store_list order store page"
    and page: "0 < page"
    and opts: "maxKeys opts = None" "includePrefixes opts"
  shows "length (order (store_results store pre (if deep opts then None else Some ''/''))) - offset < fuel
     \<Longrightarrow> (case t of None \<Rightarrow> 0 | Some tok \<Rightarrow> length tok) = offset
     \<Longrightarrow> \<exists>listing. listObjects_loop fuel s pre opts n True t = Some (listing, None)
           \<and> mset listing
               = mset (filter (yielded opts pre)
                         (drop offset (order (store_results store pre (if deep opts then None else Some ''/'')))))"
proof (induction fuel arbitrary: offset t n)
  case 0
  then show ?case by simp
next
  case (Suc fuel)
  let ?R = "order (store_results store pre (if deep opts then None else Some ''/''))"
  let ?part = "take page (drop offset ?R)"
  let ?more = "offset + page < length ?R"
  let ?next = "if ?more then Some (replicate (offset + page) (CHR ''x'')) else None"
  let ?response = "\<lparr>NextContinuationToken = ?next, IsTruncated = Some ?more,
      CommonPrefixes = Some (List.map_filter
         (\<lambda>x. case x of prefix_item p \<Rightarrow> Some p | object_item obj \<Rightarrow> None) ?part),
      Contents = Some (List.map_filter
         (\<lambda>x. case x of object_item obj \<Rightarrow> Some obj | prefix_item p \<Rightarrow> None) ?part)\<rparr>"
  have sent: "send_ListObjectsV2 (client s)
                (ListObjectsV2Command (bucketName (options s)) pre
                   (if deep opts then None else Some ''/'') t (maxKeys opts)) = Inr ?response"
    using Suc.prems(2) opts(1) by (simp add: backend store_list_def Let_def)
  have this_page: "mset (page_items opts pre ?response) = mset (filter (yielded opts pre) ?part)"
    by (rule page_items_mset [OF opts(2)]) simp_all
  have keep: "keep_listing opts n True"
    using opts(1) by (simp add: keep_listing_def)
  show ?case
  proof (cases ?more)
    case True
    have "length ?R - (offset + page) < fuel"
      using Suc.prems(1) page True by arith
    moreover have "(case ?next of None \<Rightarrow> 0 | Some tok \<Rightarrow> length tok) = offset + page"
      using True by simp
    ultimately obtain rest where
      rest: "listObjects_loop fuel s pre opts (n + length (page_items opts pre ?response)) True ?next
               = Some (rest, None)"
      and rest_items: "mset rest = mset (filter (yielded opts pre) (drop (offset + page) ?R))"
      using Suc.IH by blast
    have "listObjects_loop (Suc fuel) s pre opts n True t
            = Some (page_items opts pre ?response @ rest, None)"
      using keep sent rest True by (simp add: Let_def)
    moreover have "mset (page_items opts pre ?response @ rest)
            = mset (filter (yielded opts pre) (drop offset ?R))"
    proof -
      have "drop a xs = take p (drop a xs) @ drop (a + p) xs" for a p and xs :: "listed list"
        by (metis append_take_drop_id drop_drop add.commute)
      then have "drop offset ?R = ?part @ drop (offset + page) ?R" .
      then have "filter (yielded opts pre) (drop offset ?R)
                   = filter (yielded opts pre) ?part
                     @ filter (yielded opts pre) (drop (offset + page) ?R)"
        by (metis filter_append)
      then show ?thesis by (simp add: this_page rest_items)
    qed
    ultimately show ?thesis by blast
  next
    case False
    have "\<not> a + p < length xs \<Longrightarrow> take p (drop a xs) = drop a xs"
      for a p and xs :: "listed list"
      by simp
    from this [OF False] have whole: "?part = drop offset ?R" .
    have "listObjects_loop (Suc fuel) s pre opts n True t
            = Some (page_items opts pre ?response, None)"
      using keep sent False by (simp add: Let_def listObjects_loop_stopped)
    moreover have "mset (page_items opts pre ?response)
            = mset (filter (yielded opts pre) (drop offset ?R))"
      using this_page whole by simp
    ultimately show ?thesis by blast
  qed
qed

lemma store_results_deep:
  "store_results store pre None
     = map (\<lambda>x. object_item (stored_object x)) (filter (\<lambda>x. starts_with pre (fst x)) store)"
  by (simp add: store_results_def)

lemma store_results_shallow:
  "store_results store pre (Some ''/'')
     = map (\<lambda>p. prefix_item \<lparr>Prefix = Some p\<rparr>)
         (remdups (List.map_filter (\<lambda>x. rolled_up (CHR ''/'') pre (fst x))
                     (filter (\<lambda>x. starts_with pre (fst x)) store)))
       @ map (\<lambda>x. object_item (stored_object x))
           (filter (\<lambda>x. rolled_up (CHR ''/'') pre (fst x) = None)
              (filter (\<lambda>x. starts_with pre (fst x)) store))"
  by (simp add: store_results_def)

lemma inj_stored_object: "inj (\<lambda>x. object_item (stored_object x))"
  by (auto simp: inj_on_def stored_object_def)

lemma inj_prefix: "inj (\<lambda>p. prefix_item \<lparr>Prefix = Some p\<rparr>)"
  by (auto simp: inj_on_def)

lemma store_results_distinct:
  assumes "distinct (map fst store)"
  shows "distinct (store_results store pre (if d then None else Some ''/''))"
proof -
  from assms have store: "distinct store"
    by (simp add: distinct_map)
  have objects: "distinct (map (\<lambda>x. object_item (stored_object x)) (filter P store))" for P
    using store by (simp add: distinct_map inj_on_subset [OF inj_stored_object subset_UNIV])
  have prefixes: "distinct (map (\<lambda>p. prefix_item \<lparr>Prefix = Some p\<rparr>) (remdups ps))" for ps
    by (simp add: distinct_map inj_on_subset [OF inj_prefix subset_UNIV])
  show ?thesis
  proof (cases d)
    case True
    then show ?thesis by (simp add: store_results_deep objects)
  next
    case False
    then show ?thesis
      by (simp only: store_results_shallow if_False filter_filter distinct_append objects prefixes)
         auto
  qed
qed

lemma store_results_length:
  "length (store_results store pre (if d then None else Some ''/'')) \<le> length store"
proof (cases d)
  case True
  then show ?thesis by (simp add: store_results_deep)
next
  case False
  let ?m = "filter (\<lambda>x. starts_with pre (fst x)) store"
  let ?r = "\<lambda>x. rolled_up (CHR ''/'') pre (fst x)"
  have "length (remdups (List.map_filter ?r ?m)) \<le> length (filter (\<lambda>x. ?r x \<noteq> None) ?m)"
    using length_remdups_leq [of "List.map_filter ?r ?m"]
    by (simp add: List.map_filter_def)
  moreover have "length (filter (\<lambda>x. ?r x \<noteq> None) ?m) + length (filter (\<lambda>x. ?r x = None) ?m)
                   = length ?m"
    using sum_length_filter_compl [of "\<lambda>x. ?r x \<noteq> None" ?m] by simp
  moreover have "length ?m \<le> length store"
    by simp
  ultimately have "length (remdups (List.map_filter ?r ?m)) + length (filter (\<lambda>x. ?r x = None) ?m)
                     \<le> length store"
    by arith
  then show ?thesis
    using False by (simp only: store_results_shallow if_False length_append length_map)
qed

lemma rolled_up_Some:
  assumes "rolled_up c pre k = Some q" and "starts_with pre k"
  shows "\<exists>seg. q = pre @ seg @ [c] \<and> c \<notin> set seg \<and> starts_with q k"
proof -
  define rest where "rest = drop (length pre) k"
  define seg where "seg = takeWhile (\<lambda>x. x \<noteq> c) rest"
  from assms(1) have c: "c \<in> set rest" and q: "q = pre @ seg @ [c]"
    by (auto simp: rolled_up_def Let_def rest_def seg_def split: if_splits)
  have "take (length pre) k = pre"
    using assms(2) by (simp add: starts_with_def)
  then have k: "k = pre @ rest"
    unfolding rest_def using append_take_drop_id [of "length pre" k] by simp
  from c have "dropWhile (\<lambda>x. x \<noteq> c) rest \<noteq> []"
    by (simp add: dropWhile_eq_Nil_conv)
  then obtain y ys where ys: "dropWhile (\<lambda>x. x \<noteq> c) rest = y # ys"
    by (cases "dropWhile (\<lambda>x. x \<noteq> c) rest") auto
  with hd_dropWhile [of "\<lambda>x. x \<noteq> c" rest] have "y = c"
    by simp
  with ys takeWhile_dropWhile_id [of "\<lambda>x. x \<noteq> c" rest] have "rest = seg @ c # ys"
    by (simp add: seg_def)
  with k have "k = q @ ys"
    by (simp add: q)
  then have "starts_with q k"
    by (simp add: starts_with_def)
  moreover have "c \<notin> set seg"
    unfolding seg_def by (auto dest: set_takeWhileD)
  ultimately show ?thesis using q by blast
qed

lemma rolled_up_None:
  "rolled_up c pre k = None \<longleftrightarrow> c \<notin> set (drop (length pre) k)"
  by (simp add: rolled_up_def Let_def)

lemma yielded_list:
  "yielded \<lparr>deep = d, includePrefixes = True, includeSelf = False, maxKeys = None\<rparr> pre x
     \<longleftrightarrow> listed_key x \<noteq> None \<and> listed_key x \<noteq> Some pre"
  by (auto simp: yielded_def)

lemma listed_key_simps:
  "listed_key (prefix_item p) = Prefix p" "listed_key (object_item obj) = Key obj"
  by (simp_all add: listed_key_def)

lemma listObjects_over_store:
  assumes backend: "send_ListObjectsV2 (client s) = store_list order store page"
    and order: "\<forall>xs. mset (order xs) = mset xs"
    and page: "0 < page" and fuel: "length store < fuel"
  shows "\<exists>listing.
      listObjects fuel s path \<lparr>deep = d, includePrefixes = True, includeSelf = False, maxKeys = None\<rparr>
        = Some (listing, None)
    \<and> mset listing
        = mset (filter (\<lambda>x. listed_key x \<noteq> None \<and> listed_key x \<noteq> Some (prefixDirectoryPath (prefixer s) path))
                  (store_results store (prefixDirectoryPath (prefixer s) path)
                     (if d then None else Some ''/'')))"
proof -
  let ?opts = "\<lparr>deep = d, includePrefixes = True, includeSelf = False, maxKeys = None\<rparr>"
  let ?pre = "prefixDirectoryPath (prefixer s) path"
  let ?R = "store_results store ?pre (if d then None else Some ''/'')"
  have same: "mset (order ?R) = mset ?R"
    using order by blast
  then have "length (order ?R) = length ?R"
    by (rule mset_eq_length)
  then have "length (order (store_results store ?pre (if deep ?opts then None else Some ''/''))) - 0
               < fuel"
    using store_results_length [of store ?pre d] fuel by simp
  from listObjects_loop_over_store [OF backend page, of ?opts ?pre 0 fuel None 0, OF _ _ this]
  obtain listing where "listObjects fuel s path ?opts = Some (listing, None)"
    and "mset listing = mset (filter (yielded ?opts ?pre) (order ?R))"
    by (auto simp: listObjects_def)
  moreover have "mset (filter (yielded ?opts ?pre) (order ?R)) = mset (filter (yielded ?opts ?pre) ?R)"
    using same by (simp only: mset_filter)
  moreover have "yielded ?opts ?pre = (\<lambda>x. listed_key x \<noteq> None \<and> listed_key x \<noteq> Some ?pre)"
    by (rule ext) (rule yielded_list)
  ultimately show ?thesis by simp
qed

lemma set_map_filter: "set (List.map_filter f xs) = {y. \<exists>x \<in> set xs. f x = Some y}"
  by (induction xs) (auto split: option.splits)

lemma store_results_shallow_prefix:
  "prefix_item p \<in> set (store_results store pre (Some ''/'')) \<longleftrightarrow>
     (\<exists>y \<in> set store. starts_with pre (fst y)
        \<and> (\<exists>q. rolled_up (CHR ''/'') pre (fst y) = Some q \<and> p = \<lparr>Prefix = Some q\<rparr>))"
  unfolding store_results_shallow
  by (simp add: set_map_filter image_iff del: split_paired_Ex split_paired_All) blast

lemma store_results_shallow_object:
  "object_item obj \<in> set (store_results store pre (Some ''/'')) \<longleftrightarrow>
     (\<exists>y \<in> set store. starts_with pre (fst y)
        \<and> rolled_up (CHR ''/'') pre (fst y) = None \<and> obj = stored_object y)"
  unfolding store_results_shallow
  by (simp add: image_iff del: split_paired_Ex split_paired_All) blast

lemma store_results_deep_mem:
  "x \<in> set (store_results store pre None) \<longleftrightarrow>
     (\<exists>y \<in> set store. starts_with pre (fst y) \<and> x = object_item (stored_object y))"
  by (auto simp: store_results_deep)

lemma Key_stored_object: "Key (stored_object y) = Some (fst y)"
  by (cases y) (simp add: stored_object_def)

lemma starts_with_append: "starts_with pre k \<Longrightarrow> k = pre @ drop (length pre) k"
  using append_take_drop_id [of "length pre" k] by (simp add: starts_with_def)

lemma list_entry_prefix_directory:
  assumes "\<forall>t. t \<noteq> [] \<and> last t \<noteq> CHR ''/'' \<longrightarrow>
             stripDirectoryPath (prefixer s) (root @ t @ ''/'') = t"
    and "seg \<noteq> []" and "last seg \<noteq> CHR ''/''"
  shows "list_entry s (prefix_item \<lparr>Prefix = Some ((root @ rel) @ seg @ ''/'')\<rparr>)
           = Inr \<lparr>type = ''directory'', isFile = False, isDirectory = True,
                  entryPath = rel @ seg, entrySize = None, lastModifiedMs = None,
                  entryMimeType = None\<rparr>"
proof -
  have "rel @ seg \<noteq> [] \<and> last (rel @ seg) \<noteq> CHR ''/''"
    using assms(2,3) by simp
  with assms(1) have "stripDirectoryPath (prefixer s) (root @ (rel @ seg) @ ''/'') = rel @ seg"
    by blast
  then show ?thesis
    by (simp add: list_entry_def)
qed

lemma list_entry_object_directory:
  assumes "\<forall>t. t \<noteq> [] \<and> last t \<noteq> CHR ''/'' \<longrightarrow>
             stripDirectoryPath (prefixer s) (root @ t @ ''/'') = t"
    and "name \<noteq> []" and "last name \<noteq> CHR ''/''"
  shows "list_entry s (object_item (stored_object ((root @ rel) @ name @ ''/'', n, t)))
           = Inr \<lparr>type = ''directory'', isFile = False, isDirectory = True,
                  entryPath = rel @ name, entrySize = None, lastModifiedMs = None,
                  entryMimeType = None\<rparr>"
proof -
  have "rel @ name \<noteq> [] \<and> last (rel @ name) \<noteq> CHR ''/''"
    using assms(2,3) by simp
  with assms(1) have "stripDirectoryPath (prefixer s) (root @ (rel @ name) @ ''/'') = rel @ name"
    by blast
  then show ?thesis
    by (simp add: list_entry_def stored_object_def endsWith_slash_def)
qed

lemma list_entry_object_file:
  assumes "\<forall>k. stripFilePath (prefixer s) (root @ k) = k"
    and "name \<noteq> []" and "last name \<noteq> CHR ''/''"
  shows "list_entry s (object_item (stored_object ((root @ rel) @ name, n, t)))
           = Inr \<lparr>type = ''file'', isFile = True, isDirectory = False,
                  entryPath = rel @ name, entrySize = Some n,
                  lastModifiedMs = Some (getMilliseconds t), entryMimeType = None\<rparr>"
proof -
  have "stripFilePath (prefixer s) (root @ rel @ name) = rel @ name"
    using assms(1) by blast
  then show ?thesis
    using assms(2,3) by (simp add: list_entry_def stored_object_def endsWith_slash_def)
qed

lemma rolled_up_segment:
  assumes "c \<notin> set seg"
  shows "rolled_up c pre (pre @ seg @ c # ks) = Some (pre @ seg @ [c])"
proof -
  have "takeWhile (\<lambda>x. x \<noteq> c) (seg @ c # ks) = seg"
    using assms by (induction seg) auto
  then show ?thesis
    by (simp add: rolled_up_def)
qed

lemma starts_with_iff: "starts_with pre k \<longleftrightarrow> (\<exists>rest. k = pre @ rest)"
  by (metis append_eq_conv_conj starts_with_def)

lemma plain_key_first:
  assumes "plain_key pre (pre @ seg @ CHR ''/'' # ks)"
  shows "seg \<noteq> []"
  using assms by (auto simp: plain_key_def)

lemma plain_key_marker:
  assumes "plain_key pre (pre @ name)" and "name \<noteq> []" and "last name = CHR ''/''"
  shows "\<exists>b. name = b @ ''/'' \<and> b \<noteq> [] \<and> last b \<noteq> CHR ''/''"
proof -
  from assms(2,3) have name: "name = butlast name @ ''/''"
    by (metis append_butlast_last_id)
  have "butlast name \<noteq> []"
  proof
    assume "butlast name = []"
    with name have "name = ''/''" by simp
    with assms(1) show False by (simp add: plain_key_def)
  qed
  moreover have "last (butlast name) \<noteq> CHR ''/''"
  proof
    assume slash: "last (butlast name) = CHR ''/''"
    from \<open>butlast name \<noteq> []\<close> have "butlast name = butlast (butlast name) @ [last (butlast name)]"
      by simp
    with slash have "butlast name = butlast (butlast name) @ ''/''"
      by simp
    with name obtain c where "name = c @ ''//''"
      by (metis append.assoc append_Cons append_Nil)
    then have "take 2 (rev (drop (length pre) (pre @ name))) = ''//''"
      by simp
    with assms(1) show False by (simp add: plain_key_def)
  qed
  ultimately show ?thesis using name by blast
qed

lemma no_slash_last: "seg \<noteq> [] \<Longrightarrow> CHR ''/'' \<notin> set seg \<Longrightarrow> last seg \<noteq> CHR ''/''"
  by (metis last_in_set)

lemma entries_of_listing:
  assumes "map Inr entries = map (list_entry s) listing"
  shows "e \<in> set entries \<longleftrightarrow> (\<exists>x \<in> set listing. list_entry s x = Inr e)"
proof -
  have "Inr ` set entries = list_entry s ` set listing"
    using assms by (metis set_map)
  then show ?thesis
    by (auto simp: image_iff set_eq_iff) (metis Inr_inject)+
qed

lemma dropWhile_rev_last:
  "t \<noteq> [] \<Longrightarrow> last t \<noteq> c \<Longrightarrow> dropWhile (\<lambda>x. x = c) (rev t) = rev t"
  by (cases t rule: rev_cases) auto

text \<open>
  C8, amended: let the client answer from an object store, in pages of any size and in
  any order, and let the prefixer strip what it has prefixed: the prefix of the queried
  directory is \<open>root @ rel\<close>, with \<open>rel\<close> the queried path or that path and a separator;
  \<^verbatim>\<open>stripFilePath\<close> takes \<open>root\<close> away, and \<^verbatim>\<open>stripDirectoryPath\<close> takes away \<open>root\<close> and
  the separator at the end. If every stored key below the prefix is plain, then \<^verbatim>\<open>list\<close>
  ends and yields no entry for the queried path itself, no two entries of the same path
  and kind, and exactly these entries. With \<^verbatim>\<open>deep = false\<close>: a directory entry for every
  name that begins a stored key further down, whether that key is a marker or not, and a
  file entry (with its size and the milliseconds of its date) for every object directly
  below the directory. With \<^verbatim>\<open>deep = true\<close>: a directory entry for every marker below the
  directory, and a file entry for every other object below it.
\<close>

theorem list_over_object_store:
  fixes s :: AwsS3FileStorage and store :: object_store and path root rel :: string
  defines "pre \<equiv> prefixDirectoryPath (prefixer s) path"
  assumes backend: "send_ListObjectsV2 (client s) = store_list order store page"
    and order: "\<forall>xs. mset (order xs) = mset xs"
    and page: "0 < page"
    and keys: "distinct (map fst store)"
    and fuel: "length store < fuel"
    and prefixed: "pre = root @ rel"
    and rel: "rel = path \<or> rel = path @ ''/''"
    and strip_file: "\<forall>k. stripFilePath (prefixer s) (root @ k) = k"
    and strip_dir: "\<forall>t. t \<noteq> [] \<and> last t \<noteq> CHR ''/'' \<longrightarrow>
                      stripDirectoryPath (prefixer s) (root @ t @ ''/'') = t"
    and plain: "\<forall>y \<in> set store. starts_with pre (fst y) \<longrightarrow> plain_key pre (fst y)"
  shows "\<exists>entries. list fuel s path d = Some (entries, None)
    \<and> distinct (map (\<lambda>e. (entryPath e, isDirectory e)) entries)
    \<and> (\<forall>e \<in> set entries. entryPath e \<noteq> path)
    \<and> (\<not> d \<longrightarrow> set entries =
          {\<lparr>type = ''directory'', isFile = False, isDirectory = True, entryPath = rel @ seg,
            entrySize = None, lastModifiedMs = None, entryMimeType = None\<rparr> | seg.
             seg \<noteq> [] \<and> CHR ''/'' \<notin> set seg
             \<and> (\<exists>y \<in> set store. starts_with (pre @ seg @ ''/'') (fst y))}
        \<union> {\<lparr>type = ''file'', isFile = True, isDirectory = False, entryPath = rel @ name,
              entrySize = Some n, lastModifiedMs = Some (getMilliseconds t),
              entryMimeType = None\<rparr> | name n t.
             name \<noteq> [] \<and> CHR ''/'' \<notin> set name \<and> (pre @ name, n, t) \<in> set store})
    \<and> (d \<longrightarrow> set entries =
          {\<lparr>type = ''directory'', isFile = False, isDirectory = True, entryPath = rel @ name,
            entrySize = None, lastModifiedMs = None, entryMimeType = None\<rparr> | name.
             name \<noteq> [] \<and> (\<exists>n t. (pre @ name @ ''/'', n, t) \<in> set store)}
        \<union> {\<lparr>type = ''file'', isFile = True, isDirectory = False, entryPath = rel @ name,
              entrySize = Some n, lastModifiedMs = Some (getMilliseconds t),
              entryMimeType = None\<rparr> | name n t.
             name \<noteq> [] \<and> last name \<noteq> CHR ''/'' \<and> (pre @ name, n, t) \<in> set store})"
proof -
  let ?opts = "\<lparr>deep = d, includePrefixes = True, includeSelf = False, maxKeys = None\<rparr>"
  let ?R = "store_results store pre (if d then None else Some ''/'')"
  let ?keep = "\<lambda>x. listed_key x \<noteq> None \<and> listed_key x \<noteq> Some pre"
  let ?dir = "\<lambda>p. \<lparr>type = ''directory'', isFile = False, isDirectory = True, entryPath = p,
            entrySize = None, lastModifiedMs = None, entryMimeType = None\<rparr>"
  let ?file = "\<lambda>p n t. \<lparr>type = ''file'', isFile = True, isDirectory = False, entryPath = p,
              entrySize = Some n, lastModifiedMs = Some (getMilliseconds t),
              entryMimeType = None\<rparr>"
  let ?h = "\<lambda>e. (entryPath e, isDirectory e)"
  from listObjects_over_store [OF backend order page fuel, of path d]
  obtain listing where listing: "listObjects fuel s path ?opts = Some (listing, None)"
    and items: "mset listing = mset (filter ?keep ?R)"
    unfolding pre_def by blast
  from list_one_entry_per_item [OF listing]
  obtain entries where entries: "list fuel s path d = Some (entries, None)"
    and per_item: "map Inr entries = map (list_entry s) listing"
    by blast
  note in_entries = entries_of_listing [OF per_item]
  have mem: "x \<in> set listing \<longleftrightarrow> x \<in> set ?R \<and> ?keep x" for x
    using mset_eq_setD [OF items] by auto
  have "distinct (filter ?keep ?R)"
    using store_results_distinct [OF keys, of pre d] by simp
  then have dist: "distinct listing"
    using mset_eq_imp_distinct_iff [OF items] by simp
  have same_key: "y = z" if "y \<in> set store" "z \<in> set store" "fst y = fst z" for y z
    using keys that by (meson distinct_map inj_onD)
  have dir_entry: "list_entry s (prefix_item \<lparr>Prefix = Some (pre @ seg @ ''/'')\<rparr>) = Inr (?dir (rel @ seg))"
    if "seg \<noteq> []" "last seg \<noteq> CHR ''/''" for seg
    unfolding prefixed by (rule list_entry_prefix_directory [OF strip_dir that])
  have marker_entry: "list_entry s (object_item (stored_object (pre @ name @ ''/'', n, t)))
                        = Inr (?dir (rel @ name))"
    if "name \<noteq> []" "last name \<noteq> CHR ''/''" for name n t
    unfolding prefixed by (rule list_entry_object_directory [OF strip_dir that])
  have file_entry: "list_entry s (object_item (stored_object (pre @ name, n, t)))
                        = Inr (?file (rel @ name) n t)"
    if "name \<noteq> []" "last name \<noteq> CHR ''/''" for name n t
    unfolding prefixed by (rule list_entry_object_file [OF strip_file that])
  have beside: "rel @ name \<noteq> path" if "name \<noteq> []" for name
    using rel that by auto
  have shallow_prefix: "prefix_item p \<in> set listing \<longleftrightarrow>
      (\<exists>seg. seg \<noteq> [] \<and> CHR ''/'' \<notin> set seg
          \<and> (\<exists>y \<in> set store. starts_with (pre @ seg @ ''/'') (fst y))
          \<and> p = \<lparr>Prefix = Some (pre @ seg @ ''/'')\<rparr>)"
    if "\<not> d" for p
  proof
    assume "prefix_item p \<in> set listing"
    with that obtain y q where y: "y \<in> set store" "starts_with pre (fst y)"
      and q: "rolled_up (CHR ''/'') pre (fst y) = Some q" "p = \<lparr>Prefix = Some q\<rparr>"
      by (auto simp: mem store_results_shallow_prefix)
    from rolled_up_Some [OF q(1) y(2)] obtain seg
      where seg: "q = pre @ seg @ ''/''" "CHR ''/'' \<notin> set seg" "starts_with q (fst y)"
      by auto
    from seg(1,3) obtain ks where ks: "fst y = pre @ seg @ CHR ''/'' # ks"
      by (auto simp: starts_with_iff)
    from plain y have "plain_key pre (fst y)" by blast
    then have "seg \<noteq> []"
      unfolding ks by (rule plain_key_first)
    with seg y(1) q(2) show "\<exists>seg. seg \<noteq> [] \<and> CHR ''/'' \<notin> set seg
          \<and> (\<exists>y \<in> set store. starts_with (pre @ seg @ ''/'') (fst y))
          \<and> p = \<lparr>Prefix = Some (pre @ seg @ ''/'')\<rparr>"
      by blast
  next
    assume "\<exists>seg. seg \<noteq> [] \<and> CHR ''/'' \<notin> set seg
          \<and> (\<exists>y \<in> set store. starts_with (pre @ seg @ ''/'') (fst y))
          \<and> p = \<lparr>Prefix = Some (pre @ seg @ ''/'')\<rparr>"
    then obtain seg y where seg: "seg \<noteq> []" "CHR ''/'' \<notin> set seg"
      and y: "y \<in> set store" "starts_with (pre @ seg @ ''/'') (fst y)"
      and p: "p = \<lparr>Prefix = Some (pre @ seg @ ''/'')\<rparr>"
      by blast
    from y(2) obtain ks where ks: "fst y = pre @ seg @ CHR ''/'' # ks"
      by (auto simp: starts_with_iff)
    then have "starts_with pre (fst y)"
      by (auto simp: starts_with_iff)
    moreover have "rolled_up (CHR ''/'') pre (fst y) = Some (pre @ seg @ ''/'')"
      unfolding ks by (rule rolled_up_segment [OF seg(2)])
    ultimately have "prefix_item p \<in> set ?R"
      using that y(1) p by (auto simp: store_results_shallow_prefix)
    moreover have "?keep (prefix_item p)"
      using p by (simp add: listed_key_simps)
    ultimately show "prefix_item p \<in> set listing"
      by (simp add: mem)
  qed
  have shallow_object: "object_item obj \<in> set listing \<longleftrightarrow>
      (\<exists>name n t. name \<noteq> [] \<and> CHR ''/'' \<notin> set name \<and> (pre @ name, n, t) \<in> set store
          \<and> obj = stored_object (pre @ name, n, t))"
    if "\<not> d" for obj
  proof
    assume "object_item obj \<in> set listing"
    with that obtain y where y: "y \<in> set store" "starts_with pre (fst y)"
      "rolled_up (CHR ''/'') pre (fst y) = None" "obj = stored_object y"
      and self: "Key obj \<noteq> Some pre"
      by (auto simp: mem store_results_shallow_object listed_key_simps)
    obtain k n t where knt: "y = (k, n, t)" by (cases y)
    from y(2) knt obtain name where name: "k = pre @ name"
      by (auto simp: starts_with_iff)
    from self y(4) knt name have "name \<noteq> []"
      by (auto simp: stored_object_def)
    moreover have "CHR ''/'' \<notin> set name"
      using y(3) knt name by (simp add: rolled_up_None)
    ultimately show "\<exists>name n t. name \<noteq> [] \<and> CHR ''/'' \<notin> set name
          \<and> (pre @ name, n, t) \<in> set store \<and> obj = stored_object (pre @ name, n, t)"
      using y(1,4) knt name by blast
  next
    assume "\<exists>name n t. name \<noteq> [] \<and> CHR ''/'' \<notin> set name \<and> (pre @ name, n, t) \<in> set store
          \<and> obj = stored_object (pre @ name, n, t)"
    then obtain name n t where name: "name \<noteq> []" "CHR ''/'' \<notin> set name"
      and y: "(pre @ name, n, t) \<in> set store" and obj: "obj = stored_object (pre @ name, n, t)"
      by blast
    have "starts_with pre (fst (pre @ name, n, t))"
      by (simp add: starts_with_iff)
    moreover have "rolled_up (CHR ''/'') pre (fst (pre @ name, n, t)) = None"
      using name(2) by (simp add: rolled_up_None)
    ultimately have "object_item obj \<in> set ?R"
      using that y obj unfolding if_not_P [OF that] store_results_shallow_object by blast
    moreover have "?keep (object_item obj)"
      using obj name(1) by (simp add: listed_key_simps stored_object_def)
    ultimately show "object_item obj \<in> set listing"
      by (simp add: mem)
  qed
  have deep_item: "x \<in> set listing \<longleftrightarrow>
      (\<exists>name n t. name \<noteq> [] \<and> (pre @ name, n, t) \<in> set store
          \<and> x = object_item (stored_object (pre @ name, n, t)))"
    if d for x
  proof
    assume "x \<in> set listing"
    with that obtain y where y: "y \<in> set store" "starts_with pre (fst y)"
      "x = object_item (stored_object y)" and self: "fst y \<noteq> pre"
      by (auto simp: mem store_results_deep_mem listed_key_simps Key_stored_object)
    obtain k n t where knt: "y = (k, n, t)" by (cases y)
    from y(2) knt obtain name where name: "k = pre @ name"
      by (auto simp: starts_with_iff)
    with self knt have "name \<noteq> []" by auto
    with y(1,3) knt name show "\<exists>name n t. name \<noteq> [] \<and> (pre @ name, n, t) \<in> set store
          \<and> x = object_item (stored_object (pre @ name, n, t))"
      by blast
  next
    assume "\<exists>name n t. name \<noteq> [] \<and> (pre @ name, n, t) \<in> set store
          \<and> x = object_item (stored_object (pre @ name, n, t))"
    then obtain name n t where name: "name \<noteq> []" and y: "(pre @ name, n, t) \<in> set store"
      and x: "x = object_item (stored_object (pre @ name, n, t))"
      by blast
    have "starts_with pre (fst (pre @ name, n, t))"
      by (simp add: starts_with_iff)
    with y x that have "x \<in> set ?R"
      unfolding if_P [OF that] store_results_deep_mem by blast
    moreover have "?keep x"
      using x name by (simp add: listed_key_simps stored_object_def)
    ultimately show "x \<in> set listing"
      by (simp add: mem)
  qed
  have deep_kind: "(last name \<noteq> CHR ''/'')
        \<or> (\<exists>b. name = b @ ''/'' \<and> b \<noteq> [] \<and> last b \<noteq> CHR ''/'')"
    if "name \<noteq> []" "(pre @ name, n, t) \<in> set store" for name n t
  proof (cases "last name = CHR ''/''")
    case True
    have "starts_with pre (fst (pre @ name, n, t))"
      by (simp add: starts_with_iff)
    with plain that(2) have "plain_key pre (pre @ name)"
      by fastforce
    from plain_key_marker [OF this that(1) True] show ?thesis by blast
  next
    case False
    then show ?thesis by blast
  qed
  have described: "\<exists>name e. name \<noteq> [] \<and> list_entry s x = Inr e \<and>
        ((\<not> d \<and> x = prefix_item \<lparr>Prefix = Some (pre @ name @ ''/'')\<rparr>
            \<and> e = ?dir (rel @ name))
       \<or> (d \<and> (\<exists>n t. (pre @ name @ ''/'', n, t) \<in> set store
            \<and> x = object_item (stored_object (pre @ name @ ''/'', n, t)))
            \<and> e = ?dir (rel @ name))
       \<or> (\<exists>n t. (pre @ name, n, t) \<in> set store
            \<and> x = object_item (stored_object (pre @ name, n, t))
            \<and> e = ?file (rel @ name) n t))"
    if x: "x \<in> set listing" for x
  proof (cases d)
    case True
    from x True obtain name n t where name: "name \<noteq> []" and y: "(pre @ name, n, t) \<in> set store"
      and xv: "x = object_item (stored_object (pre @ name, n, t))"
      by (auto simp: deep_item)
    from deep_kind [OF name y] show ?thesis
    proof
      assume "last name \<noteq> CHR ''/''"
      from file_entry [OF name this, of n t] name y xv show ?thesis by blast
    next
      assume "\<exists>b. name = b @ ''/'' \<and> b \<noteq> [] \<and> last b \<noteq> CHR ''/''"
      then obtain b where b: "name = b @ ''/''" "b \<noteq> []" "last b \<noteq> CHR ''/''"
        by blast
      from marker_entry [OF b(2,3), of n t] b y xv True show ?thesis by blast
    qed
  next
    case False
    show ?thesis
    proof (cases x)
      case (prefix_item p)
      with x False obtain seg where seg: "seg \<noteq> []" "CHR ''/'' \<notin> set seg"
        "p = \<lparr>Prefix = Some (pre @ seg @ ''/'')\<rparr>"
        by (auto simp: shallow_prefix)
      from dir_entry [OF seg(1) no_slash_last [OF seg(1,2)]] prefix_item False seg(1,3)
      show ?thesis by blast
    next
      case (object_item obj)
      with x False obtain name n t where name: "name \<noteq> []" "CHR ''/'' \<notin> set name"
        and y: "(pre @ name, n, t) \<in> set store" "obj = stored_object (pre @ name, n, t)"
        by (auto simp: shallow_object)
      from file_entry [OF name(1) no_slash_last [OF name], of n t] object_item name(1) y
      show ?thesis by blast
    qed
  qed
  have not_self: "\<forall>e \<in> set entries. entryPath e \<noteq> path"
  proof
    fix e assume "e \<in> set entries"
    then obtain x where x: "x \<in> set listing" "list_entry s x = Inr e"
      by (auto simp: in_entries)
    from described [OF x(1)] obtain name e0 where name: "name \<noteq> []"
      and e0: "list_entry s x = Inr e0" and path: "entryPath e0 = rel @ name"
      by auto
    from x(2) e0 have "e0 = e" by simp
    with path beside [OF name] show "entryPath e \<noteq> path" by simp
  qed
  have tells: "x = x'"
    if "x \<in> set listing" "x' \<in> set listing" "list_entry s x = Inr e" "list_entry s x' = Inr e'"
      "?h e = ?h e'" for x x' e e'
  proof -
    from described [OF that(1)] obtain name e0 where name: "name \<noteq> []"
      and e0: "list_entry s x = Inr e0"
      and kind: "(\<not> d \<and> x = prefix_item \<lparr>Prefix = Some (pre @ name @ ''/'')\<rparr>
            \<and> e0 = ?dir (rel @ name))
       \<or> (d \<and> (\<exists>n t. (pre @ name @ ''/'', n, t) \<in> set store
            \<and> x = object_item (stored_object (pre @ name @ ''/'', n, t)))
            \<and> e0 = ?dir (rel @ name))
       \<or> (\<exists>n t. (pre @ name, n, t) \<in> set store
            \<and> x = object_item (stored_object (pre @ name, n, t))
            \<and> e0 = ?file (rel @ name) n t)"
      by blast
    from described [OF that(2)] obtain name' e0' where name': "name' \<noteq> []"
      and e0': "list_entry s x' = Inr e0'"
      and kind': "(\<not> d \<and> x' = prefix_item \<lparr>Prefix = Some (pre @ name' @ ''/'')\<rparr>
            \<and> e0' = ?dir (rel @ name'))
       \<or> (d \<and> (\<exists>n t. (pre @ name' @ ''/'', n, t) \<in> set store
            \<and> x' = object_item (stored_object (pre @ name' @ ''/'', n, t)))
            \<and> e0' = ?dir (rel @ name'))
       \<or> (\<exists>n t. (pre @ name', n, t) \<in> set store
            \<and> x' = object_item (stored_object (pre @ name', n, t))
            \<and> e0' = ?file (rel @ name') n t)"
      by blast
    from e0 e0' that(3,4) have same: "e0 = e" "e0' = e'" by simp_all
    define isfile where "isfile \<longleftrightarrow> (\<exists>n t. (pre @ name, n, t) \<in> set store
            \<and> x = object_item (stored_object (pre @ name, n, t))
            \<and> e0 = ?file (rel @ name) n t)"
    define isfile' where "isfile' \<longleftrightarrow> (\<exists>n t. (pre @ name', n, t) \<in> set store
            \<and> x' = object_item (stored_object (pre @ name', n, t))
            \<and> e0' = ?file (rel @ name') n t)"
    from kind have h: "entryPath e0 = rel @ name" "isDirectory e0 = (\<not> isfile)"
      unfolding isfile_def by auto
    from kind' have h': "entryPath e0' = rel @ name'" "isDirectory e0' = (\<not> isfile')"
      unfolding isfile'_def by auto
    from h h' that(5) same have eq: "name = name'" and files: "isfile = isfile'"
      by simp_all
    show ?thesis
    proof (cases isfile)
      case True
      then obtain n t where y: "(pre @ name, n, t) \<in> set store"
        "x = object_item (stored_object (pre @ name, n, t))"
        unfolding isfile_def by blast
      from True files obtain n' t' where y': "(pre @ name', n', t') \<in> set store"
        "x' = object_item (stored_object (pre @ name', n', t'))"
        unfolding isfile'_def by blast
      from same_key [OF y(1) y'(1)] eq have "(pre @ name, n, t) = (pre @ name', n', t')"
        by simp
      with y(2) y'(2) show ?thesis by simp
    next
      case False
      with files have False': "\<not> isfile'" by simp
      show ?thesis
      proof (cases d)
        case True
        with kind False obtain n t where y: "(pre @ name @ ''/'', n, t) \<in> set store"
          "x = object_item (stored_object (pre @ name @ ''/'', n, t))"
          unfolding isfile_def by blast
        from True kind' False' obtain n' t' where y': "(pre @ name' @ ''/'', n', t') \<in> set store"
          "x' = object_item (stored_object (pre @ name' @ ''/'', n', t'))"
          unfolding isfile'_def by blast
        from same_key [OF y(1) y'(1)] eq
        have "(pre @ name @ ''/'', n, t) = (pre @ name' @ ''/'', n', t')"
          by simp
        with y(2) y'(2) show ?thesis by simp
      next
        case d: False
        with kind False have "x = prefix_item \<lparr>Prefix = Some (pre @ name @ ''/'')\<rparr>"
          unfolding isfile_def by blast
        moreover from d kind' False' have "x' = prefix_item \<lparr>Prefix = Some (pre @ name' @ ''/'')\<rparr>"
          unfolding isfile'_def by blast
        ultimately show ?thesis using eq by simp
      qed
    qed
  qed
  have "inj_on (\<lambda>x. ?h (projr (list_entry s x))) (set listing)"
  proof (rule inj_onI)
    fix x x' assume xs: "x \<in> set listing" "x' \<in> set listing"
      and eq: "?h (projr (list_entry s x)) = ?h (projr (list_entry s x'))"
    from described [OF xs(1)] obtain e where e: "list_entry s x = Inr e" by blast
    from described [OF xs(2)] obtain e' where e': "list_entry s x' = Inr e'" by blast
    from eq e e' have "?h e = ?h e'" by simp
    from tells [OF xs e e' this] show "x = x'" .
  qed
  with dist have "distinct (map (\<lambda>x. ?h (projr (list_entry s x))) listing)"
    by (simp add: distinct_map)
  moreover have "map ?h entries = map (\<lambda>x. ?h (projr (list_entry s x))) listing"
  proof -
    have "map projr (map Inr entries :: (error + StatEntry) list)
            = map projr (map (list_entry s) listing)"
      using per_item by (rule arg_cong)
    then have "entries = map (\<lambda>x. projr (list_entry s x)) listing"
      by (simp add: o_def)
    then show ?thesis by (simp add: o_def)
  qed
  ultimately have once: "distinct (map ?h entries)"
    by simp
  have shallow: "set entries =
          {?dir (rel @ seg) | seg.
             seg \<noteq> [] \<and> CHR ''/'' \<notin> set seg
             \<and> (\<exists>y \<in> set store. starts_with (pre @ seg @ ''/'') (fst y))}
        \<union> {?file (rel @ name) n t | name n t.
             name \<noteq> [] \<and> CHR ''/'' \<notin> set name \<and> (pre @ name, n, t) \<in> set store}"
    (is "_ = ?D \<union> ?F") if "\<not> d"
  proof (intro set_eqI iffI)
    fix e assume "e \<in> set entries"
    then obtain x where x: "x \<in> set listing" "list_entry s x = Inr e"
      by (auto simp: in_entries)
    show "e \<in> ?D \<union> ?F"
    proof (cases x)
      case (prefix_item p)
      with x(1) that obtain seg where seg: "seg \<noteq> []" "CHR ''/'' \<notin> set seg"
        "\<exists>y \<in> set store. starts_with (pre @ seg @ ''/'') (fst y)"
        "p = \<lparr>Prefix = Some (pre @ seg @ ''/'')\<rparr>"
        by (auto simp: shallow_prefix)
      from prefix_item seg(4) x(2) dir_entry [OF seg(1) no_slash_last [OF seg(1,2)]]
      have "e = ?dir (rel @ seg)" by simp
      with seg(1,2,3) have "e \<in> ?D" by blast
      then show ?thesis by blast
    next
      case (object_item obj)
      with x(1) that obtain name n t where name: "name \<noteq> []" "CHR ''/'' \<notin> set name"
        and y: "(pre @ name, n, t) \<in> set store" "obj = stored_object (pre @ name, n, t)"
        by (auto simp: shallow_object)
      from object_item y(2) x(2) file_entry [OF name(1) no_slash_last [OF name], of n t]
      have "e = ?file (rel @ name) n t" by simp
      with name y(1) have "e \<in> ?F" by blast
      then show ?thesis by blast
    qed
  next
    fix e assume "e \<in> ?D \<union> ?F"
    then show "e \<in> set entries"
    proof
      assume "e \<in> ?D"
      then obtain seg where seg: "seg \<noteq> []" "CHR ''/'' \<notin> set seg"
        "\<exists>y \<in> set store. starts_with (pre @ seg @ ''/'') (fst y)" "e = ?dir (rel @ seg)"
        by blast
      then have "prefix_item \<lparr>Prefix = Some (pre @ seg @ ''/'')\<rparr> \<in> set listing"
        using that by (auto simp: shallow_prefix)
      with dir_entry [OF seg(1) no_slash_last [OF seg(1,2)]] seg(4) show ?thesis
        unfolding in_entries by blast
    next
      assume "e \<in> ?F"
      then obtain name n t where name: "name \<noteq> []" "CHR ''/'' \<notin> set name"
        and y: "(pre @ name, n, t) \<in> set store" and e: "e = ?file (rel @ name) n t"
        by blast
      then have "object_item (stored_object (pre @ name, n, t)) \<in> set listing"
        using that by (auto simp: shallow_object)
      with file_entry [OF name(1) no_slash_last [OF name], of n t] e show ?thesis
        unfolding in_entries by blast
    qed
  qed
  have deep: "set entries =
          {?dir (rel @ name) | name.
             name \<noteq> [] \<and> (\<exists>n t. (pre @ name @ ''/'', n, t) \<in> set store)}
        \<union> {?file (rel @ name) n t | name n t.
             name \<noteq> [] \<and> last name \<noteq> CHR ''/'' \<and> (pre @ name, n, t) \<in> set store}"
    (is "_ = ?D \<union> ?F") if d
  proof (intro set_eqI iffI)
    fix e assume "e \<in> set entries"
    then obtain x where x: "x \<in> set listing" "list_entry s x = Inr e"
      by (auto simp: in_entries)
    with that obtain name n t where name: "name \<noteq> []" and y: "(pre @ name, n, t) \<in> set store"
      and xv: "x = object_item (stored_object (pre @ name, n, t))"
      by (auto simp: deep_item)
    from deep_kind [OF name y] show "e \<in> ?D \<union> ?F"
    proof
      assume last: "last name \<noteq> CHR ''/''"
      with x(2) xv file_entry [OF name last, of n t] have "e = ?file (rel @ name) n t"
        by simp
      with name last y have "e \<in> ?F" by blast
      then show ?thesis by blast
    next
      assume "\<exists>b. name = b @ ''/'' \<and> b \<noteq> [] \<and> last b \<noteq> CHR ''/''"
      then obtain b where b: "name = b @ ''/''" "b \<noteq> []" "last b \<noteq> CHR ''/''"
        by blast
      with x(2) xv marker_entry [OF b(2,3), of n t] have "e = ?dir (rel @ b)"
        by simp
      with b y have "e \<in> ?D" by blast
      then show ?thesis by blast
    qed
  next
    fix e assume "e \<in> ?D \<union> ?F"
    then show "e \<in> set entries"
    proof
      assume "e \<in> ?D"
      then obtain b n t where b: "b \<noteq> []" and y: "(pre @ b @ ''/'', n, t) \<in> set store"
        and e: "e = ?dir (rel @ b)"
        by blast
      have "b @ ''/'' \<noteq> []" by simp
      from deep_kind [OF this, of n t] y obtain c where "b @ ''/'' = c @ ''/''" "last c \<noteq> CHR ''/''"
        by auto
      then have last: "last b \<noteq> CHR ''/''" by simp
      have "object_item (stored_object (pre @ (b @ ''/''), n, t)) \<in> set listing"
        using that y unfolding deep_item [OF that] by blast
      with marker_entry [OF b last, of n t] e show ?thesis
        unfolding in_entries by auto
    next
      assume "e \<in> ?F"
      then obtain name n t where name: "name \<noteq> []" "last name \<noteq> CHR ''/''"
        and y: "(pre @ name, n, t) \<in> set store" and e: "e = ?file (rel @ name) n t"
        by blast
      then have "object_item (stored_object (pre @ name, n, t)) \<in> set listing"
        using that unfolding deep_item [OF that] by blast
      with file_entry [OF name, of n t] e show ?thesis
        unfolding in_entries by blast
    qed
  qed
  from entries once not_self shallow deep show ?thesis
    by (intro exI [of _ entries] conjI impI) simp_all
qed

theorem list_over_object_store_witness:
  "(\<exists>entries. list 7 (docs_storage 2) ''docs'' False = Some (entries, None)
      \<and> distinct (map (\<lambda>e. (entryPath e, isDirectory e)) entries)
      \<and> ''docs'' \<notin> entryPath ` set entries
      \<and> map entryPath entries = [''docs/sub'', ''docs/a.txt'']
      \<and> map type entries = [''directory'', ''file''])
   \<and> (\<exists>entries. list 7 (docs_storage 2) ''docs'' True = Some (entries, None)
      \<and> distinct (map (\<lambda>e. (entryPath e, isDirectory e)) entries)
      \<and> ''docs'' \<notin> entryPath ` set entries
      \<and> map entryPath entries
          = [''docs/a.txt'', ''docs/sub'', ''docs/sub/b.txt'', ''docs/sub/deep/c.txt'']
      \<and> map type entries = [''file'', ''directory'', ''file'', ''file''])"
proof -
  let ?s = "docs_storage 2"
  have backend: "send_ListObjectsV2 (client ?s) = store_list (\<lambda>xs. xs) docs_store 2"
    by (simp add: docs_storage_def)
  have order: "\<forall>xs :: listed list. mset ((\<lambda>xs. xs) xs) = mset xs"
    by simp
  have page: "0 < (2 :: nat)"
    by simp
  have keys: "distinct (map fst docs_store)"
    by (simp add: docs_store_def)
  have fuel: "length docs_store < 7"
    by (simp add: docs_store_def)
  have prefixed: "prefixDirectoryPath (prefixer ?s) ''docs'' = ''storage/tests/'' @ ''docs/''"
    by (simp add: docs_storage_def example_defs)
  have rel: "''docs/'' = ''docs'' \<or> ''docs/'' = ''docs'' @ ''/''"
    by simp
  have strip_file: "\<forall>k. stripFilePath (prefixer ?s) (''storage/tests/'' @ k) = k"
    by (simp add: docs_storage_def example_defs)
  have strip_dir: "\<forall>t. t \<noteq> [] \<and> last t \<noteq> CHR ''/'' \<longrightarrow>
                      stripDirectoryPath (prefixer ?s) (''storage/tests/'' @ t @ ''/'') = t"
    by (simp add: docs_storage_def example_defs dropWhile_rev_last)
  have plain: "\<forall>y \<in> set docs_store.
                 starts_with (prefixDirectoryPath (prefixer ?s) ''docs'') (fst y) \<longrightarrow>
                 plain_key (prefixDirectoryPath (prefixer ?s) ''docs'') (fst y)"
    unfolding prefixed by (simp add: docs_store_def plain_key_def)
  have "\<exists>entries. list 7 ?s ''docs'' False = Some (entries, None)
      \<and> distinct (map (\<lambda>e. (entryPath e, isDirectory e)) entries)
      \<and> (\<forall>e \<in> set entries. entryPath e \<noteq> ''docs'')"
    using list_over_object_store
         [OF backend order page keys fuel prefixed rel strip_file strip_dir plain, of False]
    apply (elim exE conjE)
    apply (intro exI conjI)
    apply assumption+
    done
  then obtain shallow where
    e: "list 7 ?s ''docs'' False = Some (shallow, None)"
    and d: "distinct (map (\<lambda>e. (entryPath e, isDirectory e)) shallow)"
    and n: "\<forall>e \<in> set shallow. entryPath e \<noteq> ''docs''"
    by (elim exE conjE)
  have "\<exists>entries. list 7 ?s ''docs'' True = Some (entries, None)
      \<and> distinct (map (\<lambda>e. (entryPath e, isDirectory e)) entries)
      \<and> (\<forall>e \<in> set entries. entryPath e \<noteq> ''docs'')"
    using list_over_object_store
         [OF backend order page keys fuel prefixed rel strip_file strip_dir plain, of True]
    apply (elim exE conjE)
    apply (intro exI conjI)
    apply assumption+
    done
  then obtain deep where
    e': "list 7 ?s ''docs'' True = Some (deep, None)"
    and d': "distinct (map (\<lambda>e. (entryPath e, isDirectory e)) deep)"
    and n': "\<forall>e \<in> set deep. entryPath e \<noteq> ''docs''"
    by (elim exE conjE)
  have ev: "list 7 (docs_storage 2) ''docs'' False
          = Some ([\<lparr>type = ''directory'', isFile = False, isDirectory = True,
                     entryPath = ''docs/sub'', entrySize = None, lastModifiedMs = None,
                     entryMimeType = None\<rparr>,
                   \<lparr>type = ''file'', isFile = True, isDirectory = False,
                     entryPath = ''docs/a.txt'', entrySize = Some 3,
                     lastModifiedMs = Some 123, entryMimeType = None\<rparr>], None)"
    by code_simp
  have ev': "list 7 (docs_storage 2) ''docs'' True
          = Some ([\<lparr>type = ''file'', isFile = True, isDirectory = False,
                     entryPath = ''docs/a.txt'', entrySize = Some 3,
                     lastModifiedMs = Some 123, entryMimeType = None\<rparr>,
                   \<lparr>type = ''directory'', isFile = False, isDirectory = True,
                     entryPath = ''docs/sub'', entrySize = None, lastModifiedMs = None,
                     entryMimeType = None\<rparr>,
                   \<lparr>type = ''file'', isFile = True, isDirectory = False,
                     entryPath = ''docs/sub/b.txt'', entrySize = Some 4,
                     lastModifiedMs = Some 789, entryMimeType = None\<rparr>,
                   \<lparr>type = ''file'', isFile = True, isDirectory = False,
                     entryPath = ''docs/sub/deep/c.txt'', entrySize = Some 5,
                     lastModifiedMs = Some 790, entryMimeType = None\<rparr>], None)"
    by code_simp
  from e ev have "shallow = [\<lparr>type = ''directory'', isFile = False, isDirectory = True,
                     entryPath = ''docs/sub'', entrySize = None, lastModifiedMs = None,
                     entryMimeType = None\<rparr>,
                   \<lparr>type = ''file'', isFile = True, isDirectory = False,
                     entryPath = ''docs/a.txt'', entrySize = Some 3,
                     lastModifiedMs = Some 123, entryMimeType = None\<rparr>]"
    by simp
  then have p: "map entryPath shallow = [''docs/sub'', ''docs/a.txt'']"
    and t: "map type shallow = [''directory'', ''file'']"
    by simp_all
  from e' ev' have "deep = [\<lparr>type = ''file'', isFile = True, isDirectory = False,
                     entryPath = ''docs/a.txt'', entrySize = Some 3,
                     lastModifiedMs = Some 123, entryMimeType = None\<rparr>,
                   \<lparr>type = ''directory'', isFile = False, isDirectory = True,
                     entryPath = ''docs/sub'', entrySize = None, lastModifiedMs = None,
                     entryMimeType = None\<rparr>,
                   \<lparr>type = ''file'', isFile = True, isDirectory = False,
                     entryPath = ''docs/sub/b.txt'', entrySize = Some 4,
                     lastModifiedMs = Some 789, entryMimeType = None\<rparr>,
                   \<lparr>type = ''file'', isFile = True, isDirectory = False,
                     entryPath = ''docs/sub/deep/c.txt'', entrySize = Some 5,
                     lastModifiedMs = Some 790, entryMimeType = None\<rparr>]"
    by simp
  then have p': "map entryPath deep
          = [''docs/a.txt'', ''docs/sub'', ''docs/sub/b.txt'', ''docs/sub/deep/c.txt'']"
    and t': "map type deep = [''file'', ''directory'', ''file'', ''file'']"
    by simp_all
  from n have m: "''docs'' \<notin> entryPath ` set shallow" by (auto simp: image_iff)
  from n' have m': "''docs'' \<notin> entryPath ` set deep" by (auto simp: image_iff)
  have 1: "\<exists>entries. list 7 (docs_storage 2) ''docs'' False = Some (entries, None)
      \<and> distinct (map (\<lambda>e. (entryPath e, isDirectory e)) entries)
      \<and> ''docs'' \<notin> entryPath ` set entries
      \<and> map entryPath entries = [''docs/sub'', ''docs/a.txt'']
      \<and> map type entries = [''directory'', ''file'']"
    by (intro exI [of _ shallow] conjI) (rule e d m p t)+
  have 2: "\<exists>entries. list 7 (docs_storage 2) ''docs'' True = Some (entries, None)
      \<and> distinct (map (\<lambda>e. (entryPath e, isDirectory e)) entries)
      \<and> ''docs'' \<notin> entryPath ` set entries
      \<and> map entryPath entries
          = [''docs/a.txt'', ''docs/sub'', ''docs/sub/b.txt'', ''docs/sub/deep/c.txt'']
      \<and> map type entries = [''file'', ''directory'', ''file'', ''file'']"
    by (intro exI [of _ deep] conjI) (rule e' d' m' p' t')+
  from 1 2 show ?thesis by (rule conjI)
qed

text \<open>
  The claim as it stands fails on keys with an empty name in them. The key
  \<^verbatim>\<open>docs//notes.txt\<close> gives the listing of \<^verbatim>\<open>docs\<close> the common prefix \<^verbatim>\<open>docs//\<close>, and with a
  prefixer that strips all separators at the end, as the one of the example does, the
  entry of that prefix has the path \<^verbatim>\<open>docs\<close>, the queried path itself. In the deep listing
  the two markers \<^verbatim>\<open>docs/sub/\<close> and \<^verbatim>\<open>docs/sub//\<close> give the same directory entry twice.
\<close>

theorem list_empty_name_counterexample:
  "list 5 (slash_storage 2) ''docs'' False
     = Some ([\<lparr>type = ''directory'', isFile = False, isDirectory = True,
                entryPath = ''docs'', entrySize = None, lastModifiedMs = None,
                entryMimeType = None\<rparr>,
              \<lparr>type = ''directory'', isFile = False, isDirectory = True,
                entryPath = ''docs/sub'', entrySize = None, lastModifiedMs = None,
                entryMimeType = None\<rparr>,
              \<lparr>type = ''file'', isFile = True, isDirectory = False,
                entryPath = ''docs/a.txt'', entrySize = Some 3,
                lastModifiedMs = Some 123, entryMimeType = None\<rparr>], None)
   \<and> list 5 (slash_storage 2) ''docs'' True
     = Some ([\<lparr>type = ''file'', isFile = True, isDirectory = False,
                entryPath = ''docs//notes.txt'', entrySize = Some 2,
                lastModifiedMs = Some 2, entryMimeType = None\<rparr>,
              \<lparr>type = ''file'', isFile = True, isDirectory = False,
                entryPath = ''docs/a.txt'', entrySize = Some 3,
                lastModifiedMs = Some 123, entryMimeType = None\<rparr>,
              \<lparr>type = ''directory'', isFile = False, isDirectory = True,
                entryPath = ''docs/sub'', entrySize = None, lastModifiedMs = None,
                entryMimeType = None\<rparr>,
              \<lparr>type = ''directory'', isFile = False, isDirectory = True,
                entryPath = ''docs/sub'', entrySize = None, lastModifiedMs = None,
                entryMimeType = None\<rparr>], None)"
  by code_simp

subsection \<open>The time of the last modification\<close>

lemma stat_lastModifiedMs_range:
  "stat s path = Inr e \<Longrightarrow> lastModifiedMs e = Some t \<Longrightarrow> 0 \<le> t \<and> t < 1000"
  by (auto simp: stat_def getMilliseconds_def split: sum.splits)

text \<open>
  C9: \<^verbatim>\<open>lastModifiedMs\<close> should be the time of the last modification in milliseconds since
  the epoch. The adapter calls \<^verbatim>\<open>getMilliseconds()\<close>, which is the milliseconds within
  the second, a number below 1000. For the object \<^verbatim>\<open>path.txt\<close> of the example, modified at
  1700000000123, \<^verbatim>\<open>stat\<close> gives 123; \<^verbatim>\<open>list\<close> gives 123 and 789 for the two files below
  \<^verbatim>\<open>docs\<close>, modified at 1700000000123 and 1700000456789.
\<close>

theorem lastModifiedMs_is_millisecond_component:
  "(\<exists>r. send_HeadObject (client example_storage)
            (HeadObjectCommand ''flysystem-check'' ''storage/tests/path.txt'' None) = Inr r
        \<and> map_option getTime (HeadLastModified r) = Some 1700000000123)
   \<and> (\<exists>e. stat example_storage ''path.txt'' = Inr e \<and> lastModifiedMs e = Some 123)
   \<and> (\<exists>es. list 1 example_storage ''docs'' True = Some (es, None)
          \<and> map lastModifiedMs es = [Some 123, Some 789])"
  by (simp add: stat_def list_def listObjects_def page_items_def keep_listing_def list_entry_def
        endsWith_slash_def getMilliseconds_def getTime_def example_defs)

subsection \<open>The variant that stat returns\<close>

text \<open>
  C10: whenever \<^verbatim>\<open>stat\<close> succeeds, the entry is the file variant: \<^verbatim>\<open>type\<close> is \<^verbatim>\<open>'file'\<close>,
  \<^verbatim>\<open>isFile\<close> is true and \<^verbatim>\<open>isDirectory\<close> is false, also for the key of a directory marker.
\<close>

theorem stat_returns_file_variant:
  "stat s path = Inr e \<Longrightarrow> type e = ''file'' \<and> isFile e \<and> \<not> isDirectory e"
  by (auto simp: stat_def split: sum.splits)

theorem stat_returns_file_variant_witness:
  "\<exists>e. stat example_storage ''docs/'' = Inr e \<and> type e = ''file'' \<and> isFile e \<and> \<not> isDirectory e"
proof -
  obtain e where e: "stat example_storage ''docs/'' = Inr e"
    by (simp add: stat_def example_defs)
  from stat_returns_file_variant [OF e] e show ?thesis by blast
qed

end
